theory Spec2Isabelle
  imports Main
begin

section \<open>The autopart command of pykickstart (commands/autopart.py)\<close>

text \<open>
  The file defines one class per release whose syntax of the \<^verbatim>\<open>autopart\<close> directive
  differs from the release before: \<^verbatim>\<open>FC3_AutoPart\<close>, \<^verbatim>\<open>F9_AutoPart\<close>, ... Each class
  inherits from an earlier one and overrides \<^verbatim>\<open>__init__\<close>, \<^verbatim>\<open>__str__\<close>, \<^verbatim>\<open>_getParser\<close>
  and \<^verbatim>\<open>parse\<close> as needed. A target version is modelled by the class that implements it.
\<close>

datatype version = FC3 | F9 | F12 | RHEL6 | F16 | F17 | F18 | F20 | F21 | F23 | RHEL7 | F26

text \<open>The linearised inheritance chain of each class, the class itself first.\<close>

fun ancestors :: "version \<Rightarrow> version list" where
  "ancestors FC3 = [FC3]"
| "ancestors F9 = [F9, FC3]"
| "ancestors F12 = [F12, F9, FC3]"
| "ancestors RHEL6 = [RHEL6, F12, F9, FC3]"
| "ancestors F16 = [F16, F12, F9, FC3]"
| "ancestors F17 = [F17, F16, F12, F9, FC3]"
| "ancestors F18 = [F18, F17, F16, F12, F9, FC3]"
| "ancestors F20 = [F20, F18, F17, F16, F12, F9, FC3]"
| "ancestors F21 = [F21, F20, F18, F17, F16, F12, F9, FC3]"
| "ancestors F23 = [F23, F21, F20, F18, F17, F16, F12, F9, FC3]"
| "ancestors RHEL7 = [RHEL7, F21, F20, F18, F17, F16, F12, F9, FC3]"
| "ancestors F26 = [F26, F23, F21, F20, F18, F17, F16, F12, F9, FC3]"

text \<open>\<open>derives V W\<close>: the class of \<open>V\<close> is the class of \<open>W\<close> or inherits from it
  ("\<open>V\<close> is \<open>W\<close> or later").\<close>

definition derives :: "version \<Rightarrow> version \<Rightarrow> bool" where
  "derives V W = (W \<in> set (ancestors V))"

subsection \<open>Constants and the command object\<close>

text \<open>
  \<^verbatim>\<open>pykickstart.constants\<close> is not part of the file; its four \<^verbatim>\<open>AUTOPART_TYPE_*\<close>
  constants are taken as four distinct symbolic values.
\<close>

datatype autopart_type =
  AUTOPART_TYPE_PLAIN | AUTOPART_TYPE_BTRFS | AUTOPART_TYPE_LVM | AUTOPART_TYPE_LVM_THINP

text \<open>
  The attributes that the \<^verbatim>\<open>__init__\<close> methods create on the command object. An object
  of an early class lacks the later attributes; in the record they keep their default
  and no method of the early class reads or writes them.
\<close>

record autopart_state =
  autopart :: bool
  encrypted :: bool
  passphrase :: string
  escrowcert :: string
  backuppassphrase :: bool
  cipher :: string
  lvm :: bool
  type :: "autopart_type option"
  fstype :: string
  nohome :: bool
  noboot :: bool
  noswap :: bool

text \<open>The object built by \<^verbatim>\<open>__init__\<close> with no keyword arguments (every \<^verbatim>\<open>kwargs.get\<close>
  falls to its default).\<close>

definition init :: autopart_state where
  "init = \<lparr> autopart = False, encrypted = False, passphrase = [], escrowcert = [],
            backuppassphrase = False, cipher = [], lvm = True, type = None, fstype = [],
            nohome = False, noboot = False, noswap = False \<rparr>"

subsection \<open>Strings\<close>

text \<open>
  A string is a list of 8-bit characters (code points below 256). \<^verbatim>\<open>str.strip()\<close> removes
  leading and trailing whitespace; below 256 Python's whitespace is 9 to 13, 28 to 32,
  133 and 160.
\<close>

abbreviation nl :: char where "nl \<equiv> CHR 0x0A"
abbreviation dq :: char where "dq \<equiv> CHR 0x22"

definition isspace :: "char \<Rightarrow> bool" where
  "isspace c = (of_char c \<in> set [9, 10, 11, 12, 13, 28, 29, 30, 31, 32, 133, 160 :: nat])"

definition strip :: "string \<Rightarrow> string" where
  "strip s = rev (dropWhile isspace (rev (dropWhile isspace s)))"

subsection \<open>Serialisation: the \<^verbatim>\<open>__str__\<close> methods\<close>

text \<open>
  Modelled from the spec: \<^verbatim>\<open>KickstartCommand.__str__\<close> (pykickstart/base.py is not part of
  the file). Section 4.4: a directive that is not present serialises to the empty string,
  so the base class contributes nothing.
\<close>

definition KickstartCommand_str :: string where
  "KickstartCommand_str = []"

definition FC3_str :: "autopart_state \<Rightarrow> string" where
  "FC3_str s =
     (let retval = KickstartCommand_str in
      if autopart s then retval @ ''autopart'' @ [nl] else retval)"

definition F9_str :: "autopart_state \<Rightarrow> string" where
  "F9_str s =
     (let retval = KickstartCommand_str in
      if \<not> autopart s then retval
      else
        let retval = retval @ ''autopart'';
            retval =
              (if encrypted s then
                 let retval = retval @ '' --encrypted'' in
                 if passphrase s \<noteq> [] then retval @ '' --passphrase='' @ [dq] @ passphrase s @ [dq]
                 else retval
               else retval)
        in retval @ [nl])"

definition F12_str :: "autopart_state \<Rightarrow> string" where
  "F12_str s =
     (let retval = F9_str s in
      if \<not> autopart s then retval
      else if encrypted s \<and> escrowcert s \<noteq> [] then
        let retval = strip retval;
            retval = retval @ '' --escrowcert='' @ [dq] @ escrowcert s @ [dq];
            retval = (if backuppassphrase s then retval @ '' --backuppassphrase'' else retval)
        in retval @ [nl]
      else retval)"

definition RHEL6_str :: "autopart_state \<Rightarrow> string" where
  "RHEL6_str s =
     (let retval = F12_str s in
      if \<not> autopart s then retval
      else if encrypted s \<and> cipher s \<noteq> [] then
        strip retval @ '' --cipher='' @ [dq] @ cipher s @ [dq] @ [nl]
      else retval)"

definition F16_str :: "autopart_state \<Rightarrow> string" where
  "F16_str s =
     (let retval = F12_str s in
      if \<not> autopart s then retval
      else if \<not> lvm s then strip retval @ '' --nolvm'' @ [nl]
      else retval)"

text \<open>\<^verbatim>\<open>self.typeMap\<close>, in insertion order: \<^verbatim>\<open>F17_AutoPart.__init__\<close> creates it and
  \<^verbatim>\<open>F20_AutoPart.__init__\<close> adds \<^verbatim>\<open>thinp\<close>.\<close>

definition typeMap :: "version \<Rightarrow> (string \<times> autopart_type) list" where
  "typeMap V =
     [(''lvm'', AUTOPART_TYPE_LVM), (''btrfs'', AUTOPART_TYPE_BTRFS),
      (''plain'', AUTOPART_TYPE_PLAIN), (''partition'', AUTOPART_TYPE_PLAIN)]
     @ (if derives V F20 then [(''thinp'', AUTOPART_TYPE_LVM_THINP)] else [])"

text \<open>\<^verbatim>\<open>_typeAsStr\<close>: the first key of the map whose value is \<^verbatim>\<open>self.type\<close>, with
  \<^verbatim>\<open>partition\<close> turned into \<^verbatim>\<open>plain\<close>; \<^verbatim>\<open>None\<close> when there is none.\<close>

definition typeAsStr :: "version \<Rightarrow> autopart_state \<Rightarrow> string option" where
  "typeAsStr V s =
     (case find (\<lambda>(key, value). Some value = type s) (typeMap V) of
        None \<Rightarrow> None
      | Some (key, value) \<Rightarrow> if key = ''partition'' then Some ''plain'' else Some key)"

text \<open>From here on a method reads \<^verbatim>\<open>self.typeMap\<close>, which depends on the class of the
  object it runs on: the class is its first argument.\<close>

definition F17_str :: "version \<Rightarrow> autopart_state \<Rightarrow> string" where
  "F17_str V s =
     (let retval = F16_str s in
      if \<not> autopart s then retval
      else case typeAsStr V s of
        None \<Rightarrow> retval
      | Some ty \<Rightarrow> if ty \<noteq> [] then strip retval @ '' --type='' @ ty @ [nl] else retval)"

definition F18_str :: "version \<Rightarrow> autopart_state \<Rightarrow> string" where
  "F18_str V s =
     (let retval = F17_str V s in
      if \<not> autopart s then retval
      else if encrypted s \<and> cipher s \<noteq> [] then
        strip retval @ '' --cipher='' @ [dq] @ cipher s @ [dq] @ [nl]
      else retval)"

definition F21_str :: "version \<Rightarrow> autopart_state \<Rightarrow> string" where
  "F21_str V s =
     (let retval = F18_str V s in
      if \<not> autopart s then retval
      else if fstype s \<noteq> [] then strip retval @ '' --fstype='' @ fstype s @ [nl]
      else retval)"

definition RHEL7_str :: "version \<Rightarrow> autopart_state \<Rightarrow> string" where
  "RHEL7_str V s =
     (let retval = F21_str V s in
      if \<not> autopart s then retval
      else if nohome s then strip retval @ '' --nohome'' @ [nl]
      else retval)"

definition F26_str :: "version \<Rightarrow> autopart_state \<Rightarrow> string" where
  "F26_str V s =
     (let retval = F21_str V s in
      if \<not> autopart s then retval
      else
        let retval = (if nohome s then strip retval @ '' --nohome'' @ [nl] else retval);
            retval = (if noboot s then strip retval @ '' --noboot'' @ [nl] else retval);
            retval = (if noswap s then strip retval @ '' --noswap'' @ [nl] else retval)
        in retval)"

text \<open>\<^verbatim>\<open>str(obj)\<close> for an object of each class: F20 and F23 define no \<^verbatim>\<open>__str__\<close> and
  inherit the one of F18 and F21.\<close>

fun str :: "version \<Rightarrow> autopart_state \<Rightarrow> string" where
  "str FC3 s = FC3_str s"
| "str F9 s = F9_str s"
| "str F12 s = F12_str s"
| "str RHEL6 s = RHEL6_str s"
| "str F16 s = F16_str s"
| "str F17 s = F17_str F17 s"
| "str F18 s = F18_str F18 s"
| "str F20 s = F18_str F20 s"
| "str F21 s = F21_str F21 s"
| "str F23 s = F21_str F23 s"
| "str RHEL7 s = RHEL7_str RHEL7 s"
| "str F26 s = F26_str F26 s"

subsection \<open>Errors\<close>

text \<open>
  Every failure is a \<^verbatim>\<open>KickstartParseError\<close> raised with a message; the error value
  stands for the message (\<^verbatim>\<open>formatErrorMsg\<close> only prefixes the line number kept by the
  dispatcher).
  \<^item> \<open>NoArguments\<close>: "Kickstart command autopart does not take any arguments";
  \<^item> \<open>UnrecognizedArguments\<close>, \<open>AmbiguousOption\<close>, \<open>ExpectedOneArgument\<close>,
    \<open>IgnoredExplicitArgument\<close>: the messages of the option parser;
  \<^item> \<open>InvalidAutopartType\<close>: "Invalid autopart type: ...";
  \<^item> \<open>ConflictingCommand c\<close>: "The c and autopart commands can't be used at the same time";
  \<^item> \<open>FstypeBtrfsNotValid\<close>: "autopart --fstype=btrfs is not valid fstype, use --type=btrfs instead";
  \<^item> \<open>FstypeWithTypeBtrfs\<close>: "autopart --fstype cannot be used with --type=btrfs".
\<close>

datatype error =
    NoArguments
  | UnrecognizedArguments "string list"
  | AmbiguousOption string "string list"
  | ExpectedOneArgument string
  | IgnoredExplicitArgument string string
  | InvalidAutopartType string
  | ConflictingCommand string
  | FstypeBtrfsNotValid
  | FstypeWithTypeBtrfs

text \<open>The error kinds of section 7 of the specification, and the kind each message
  belongs to.\<close>

datatype error_kind =
  UnexpectedArgument | UnknownOption | InvalidOptionValue | ConflictingDirectives
  | InvalidOptionCombination

fun kind :: "error \<Rightarrow> error_kind" where
  "kind NoArguments = UnexpectedArgument"
| "kind (UnrecognizedArguments extras) = UnknownOption"
| "kind (AmbiguousOption arg matches) = UnknownOption"
| "kind (ExpectedOneArgument opt) = InvalidOptionValue"
| "kind (IgnoredExplicitArgument opt arg) = InvalidOptionValue"
| "kind (InvalidAutopartType v) = InvalidOptionValue"
| "kind (ConflictingCommand c) = ConflictingDirectives"
| "kind FstypeBtrfsNotValid = InvalidOptionCombination"
| "kind FstypeWithTypeBtrfs = InvalidOptionCombination"

subsection \<open>The option parser\<close>

text \<open>
  \<^verbatim>\<open>KSOptionParser\<close> (pykickstart/options.py, not part of the file) derives from
  \<^verbatim>\<open>argparse.ArgumentParser\<close> of the Python standard library; the \<^verbatim>\<open>_getParser\<close> methods
  call its \<^verbatim>\<open>add_argument\<close> with argparse's own keywords (\<^verbatim>\<open>action\<close>, \<^verbatim>\<open>dest\<close>,
  \<^verbatim>\<open>default\<close>, \<^verbatim>\<open>type\<close>) and \<^verbatim>\<open>parse\<close> calls its \<^verbatim>\<open>parse_args\<close>. The model below is
  argparse restricted to what the file registers: long options only, no positional
  argument, the actions \<^verbatim>\<open>store\<close> (with or without a \<^verbatim>\<open>type\<close> callback), \<^verbatim>\<open>store_true\<close>,
  \<^verbatim>\<open>store_false\<close> and \<^verbatim>\<open>store_const\<close>. The keyword \<^verbatim>\<open>version\<close> of \<^verbatim>\<open>add_argument\<close> and the
  help texts are documentation and have no effect on parsing. An error of the parser is
  raised as a \<^verbatim>\<open>KickstartParseError\<close>. This is the parser of section 4.2 of the
  specification: the tokens are resolved against the options of the version, an
  unrecognised flag and a value that its coercion refuses are errors.
\<close>

datatype dest =
  D_encrypted | D_passphrase | D_escrowcert | D_backuppassphrase | D_cipher | D_lvm
  | D_type | D_fstype | D_nohome | D_noboot | D_noswap

datatype val = VNone | VBool bool | VStr string | VType autopart_type

datatype action = Store | StoreTypeCb | StoreTrue | StoreFalse | StoreConst autopart_type

type_synonym argument = "string \<times> action \<times> dest"
type_synonym parser = "argument list"
type_synonym namespace = "dest \<rightharpoonup> val"

text \<open>\<^verbatim>\<open>F17_AutoPart._getParser\<close> registers \<^verbatim>\<open>--nolvm\<close> a second time, which argparse
  accepts only with the conflict handler \<^verbatim>\<open>resolve\<close>: the earlier option of that name is
  removed and the new one comes last.\<close>

definition add_argument :: "parser \<Rightarrow> argument \<Rightarrow> parser" where
  "add_argument op a = filter (\<lambda>b. fst b \<noteq> fst a) op @ [a]"

fun default :: "action \<Rightarrow> val" where
  "default Store = VNone"
| "default StoreTypeCb = VNone"
| "default StoreTrue = VBool False"
| "default StoreFalse = VBool True"
| "default (StoreConst c) = VNone"

fun nargs :: "action \<Rightarrow> nat" where
  "nargs Store = 1"
| "nargs StoreTypeCb = 1"
| "nargs StoreTrue = 0"
| "nargs StoreFalse = 0"
| "nargs (StoreConst c) = 0"

text \<open>The namespace before any token is read: each destination gets the default of the
  first action registered for it.\<close>

definition defaults :: "parser \<Rightarrow> namespace" where
  "defaults op =
     fold (\<lambda>(os, a, d) ns. if ns d = None then ns(d \<mapsto> default a) else ns) op Map.empty"

text \<open>\<^verbatim>\<open>str.lower()\<close> on code points below 256.\<close>

definition lower_char :: "char \<Rightarrow> char" where
  "lower_char c =
     (let n = of_char c :: nat in
      if (65 \<le> n \<and> n \<le> 90) \<or> (192 \<le> n \<and> n \<le> 222 \<and> n \<noteq> 215) then char_of (n + 32) else c)"

definition lower :: "string \<Rightarrow> string" where
  "lower s = map lower_char s"

definition isdigit :: "char \<Rightarrow> bool" where
  "isdigit c = (48 \<le> (of_char c :: nat) \<and> (of_char c :: nat) \<le> 57)"

text \<open>argparse's pattern for a negative number, \<^verbatim>\<open>^-\d+$|^-\d*\.\d+$\<close> (\<^verbatim>\<open>$\<close> also matches
  before a final newline).\<close>

definition negative_number :: "string \<Rightarrow> bool" where
  "negative_number arg =
     (let s = (if arg \<noteq> [] \<and> last arg = nl then butlast arg else arg) in
      case s of
        [] \<Rightarrow> False
      | c # r \<Rightarrow>
          c = CHR ''-'' \<and>
          ((r \<noteq> [] \<and> list_all isdigit r) \<or>
           (case dropWhile isdigit r of
              [] \<Rightarrow> False
            | d # f \<Rightarrow> d = CHR ''.'' \<and> f \<noteq> [] \<and> list_all isdigit f)))"

text \<open>\<^verbatim>\<open>arg.split('=', 1)\<close> for an argument that contains \<^verbatim>\<open>=\<close>.\<close>

definition split_eq :: "string \<Rightarrow> string \<times> string" where
  "split_eq arg = (takeWhile (\<lambda>c. c \<noteq> CHR ''='') arg, tl (dropWhile (\<lambda>c. c \<noteq> CHR ''='') arg))"

definition startswith :: "string \<Rightarrow> string \<Rightarrow> bool" where
  "startswith s p = (take (length p) s = p)"

text \<open>How one argument string is read: a positional argument, the separator \<^verbatim>\<open>--\<close>, or
  an option: the action found (\<open>None\<close> for an unknown option), the option string and the
  explicit argument after \<^verbatim>\<open>=\<close>.\<close>

datatype tok = Pos | Sep | Opt "(action \<times> dest) option" string "string option"

text \<open>\<^verbatim>\<open>_get_option_tuples\<close>: the registered options that the argument abbreviates.\<close>

definition get_option_tuples :: "parser \<Rightarrow> string \<Rightarrow> ((action \<times> dest) \<times> string \<times> string option) list" where
  "get_option_tuples op arg =
     (case arg of
        c0 # c1 # rest \<Rightarrow>
          if c0 = CHR ''-'' \<and> c1 = CHR ''-'' then
            let (option_prefix, explicit_arg) =
                  (if CHR ''='' \<in> set arg then (fst (split_eq arg), Some (snd (split_eq arg)))
                   else (arg, None))
            in map (\<lambda>(os, ad). (ad, os, explicit_arg))
                 (filter (\<lambda>(os, ad). startswith os option_prefix) op)
          else if c0 = CHR ''-'' then
            concat (map (\<lambda>(os, ad).
                      if os = take 2 arg then [(ad, os, Some (drop 2 arg))]
                      else if startswith os arg then [(ad, os, None)]
                      else []) op)
          else []
      | _ \<Rightarrow> [])"

text \<open>\<^verbatim>\<open>_parse_optional\<close>.\<close>

definition parse_optional :: "parser \<Rightarrow> string \<Rightarrow> error + tok" where
  "parse_optional op arg =
     (if arg = [] then Inr Pos
      else if hd arg \<noteq> CHR ''-'' then Inr Pos
      else case map_of op arg of
        Some ad \<Rightarrow> Inr (Opt (Some ad) arg None)
      | None \<Rightarrow>
          if length arg = 1 then Inr Pos
          else if CHR ''='' \<in> set arg \<and> map_of op (fst (split_eq arg)) \<noteq> None then
            Inr (Opt (map_of op (fst (split_eq arg))) (fst (split_eq arg)) (Some (snd (split_eq arg))))
          else
            let option_tuples = get_option_tuples op arg in
            if length option_tuples > 1 then
              Inl (AmbiguousOption arg (map (\<lambda>(ad, os, e). os) option_tuples))
            else if length option_tuples = 1 then
              (case hd option_tuples of (ad, os, e) \<Rightarrow> Inr (Opt (Some ad) os e))
            else if negative_number arg then Inr Pos
            else if CHR '' '' \<in> set arg then Inr Pos
            else Inr (Opt None arg None))"

text \<open>The first pass of \<^verbatim>\<open>parse_args\<close> reads every argument string; after the separator
  \<^verbatim>\<open>--\<close> all of them are positional.\<close>

fun classify :: "parser \<Rightarrow> string list \<Rightarrow> error + (string \<times> tok) list" where
  "classify op [] = Inr []"
| "classify op (arg # args) =
     (if arg = ''--'' then Inr ((arg, Sep) # map (\<lambda>a. (a, Pos)) args)
      else case parse_optional op arg of
        Inl e \<Rightarrow> Inl e
      | Inr t \<Rightarrow>
          (case classify op args of
             Inl e \<Rightarrow> Inl e
           | Inr ts \<Rightarrow> Inr ((arg, t) # ts)))"

text \<open>An action stores its value under its destination. \<^verbatim>\<open>StoreTypeCb\<close> is \<^verbatim>\<open>--type\<close>,
  whose value goes through \<^verbatim>\<open>F17_AutoPart._type_cb\<close> with the type map of the object.\<close>

definition type_cb :: "(string \<times> autopart_type) list \<Rightarrow> string \<Rightarrow> error + autopart_type" where
  "type_cb tm v =
     (case map_of tm (lower v) of
        Some t \<Rightarrow> Inr t
      | None \<Rightarrow> Inl (InvalidAutopartType v))"

fun take_action :: "(string \<times> autopart_type) list \<Rightarrow> action \<Rightarrow> dest \<Rightarrow> string \<Rightarrow> namespace \<Rightarrow> error + namespace" where
  "take_action tm Store d v ns = Inr (ns(d \<mapsto> VStr v))"
| "take_action tm StoreTypeCb d v ns =
     (case type_cb tm v of
        Inl e \<Rightarrow> Inl e
      | Inr t \<Rightarrow> Inr (ns(d \<mapsto> VType t)))"
| "take_action tm StoreTrue d v ns = Inr (ns(d \<mapsto> VBool True))"
| "take_action tm StoreFalse d v ns = Inr (ns(d \<mapsto> VBool False))"
| "take_action tm (StoreConst c) d v ns = Inr (ns(d \<mapsto> VType c))"

text \<open>The second pass goes through the arguments from left to right. An option runs its
  action at once; an option that takes a value takes the explicit argument or else the
  next argument string, which must be positional. Strings that are no option and
  unknown options are collected as extras.\<close>

fun consume :: "(string \<times> autopart_type) list \<Rightarrow> (string \<times> tok) list \<Rightarrow> namespace \<Rightarrow> string list
                \<Rightarrow> error + (namespace \<times> string list)" where
  "consume tm [] ns extras = Inr (ns, extras)"
| "consume tm ((arg, Pos) # ts) ns extras = consume tm ts ns (extras @ [arg])"
| "consume tm ((arg, Sep) # ts) ns extras = consume tm ts ns (extras @ [arg])"
| "consume tm ((arg, Opt None os e) # ts) ns extras = consume tm ts ns (extras @ [arg])"
| "consume tm ((arg, Opt (Some (a, d)) os (Some e)) # ts) ns extras =
     (if nargs a = 1 then
        (case take_action tm a d e ns of
           Inl err \<Rightarrow> Inl err
         | Inr ns' \<Rightarrow> consume tm ts ns' extras)
      else Inl (IgnoredExplicitArgument os e))"
| "consume tm ((arg, Opt (Some (a, d)) os None) # ts) ns extras =
     (if nargs a = 0 then
        (case take_action tm a d [] ns of
           Inl err \<Rightarrow> Inl err
         | Inr ns' \<Rightarrow> consume tm ts ns' extras)
      else
        (case ts of
           (v, Pos) # ts' \<Rightarrow>
             (case take_action tm a d v ns of
                Inl err \<Rightarrow> Inl err
              | Inr ns' \<Rightarrow> consume tm ts' ns' extras)
         | _ \<Rightarrow> Inl (ExpectedOneArgument os)))"

text \<open>\<^verbatim>\<open>parse_args\<close>: extras left at the end are an error.\<close>

definition parse_args :: "parser \<Rightarrow> (string \<times> autopart_type) list \<Rightarrow> string list \<Rightarrow> error + namespace" where
  "parse_args op tm args =
     (case classify op args of
        Inl e \<Rightarrow> Inl e
      | Inr ts \<Rightarrow>
          (case consume tm ts (defaults op) [] of
             Inl e \<Rightarrow> Inl e
           | Inr (ns, extras) \<Rightarrow>
               if extras \<noteq> [] then Inl (UnrecognizedArguments extras) else Inr ns))"

subsection \<open>The parsers of the classes: \<^verbatim>\<open>_getParser\<close>\<close>

definition FC3_getParser :: parser where
  "FC3_getParser = []"

definition F9_getParser :: parser where
  "F9_getParser =
     (let op = FC3_getParser;
          op = add_argument op (''--encrypted'', StoreTrue, D_encrypted);
          op = add_argument op (''--passphrase'', Store, D_passphrase)
      in op)"

definition F12_getParser :: parser where
  "F12_getParser =
     (let op = F9_getParser;
          op = add_argument op (''--escrowcert'', Store, D_escrowcert);
          op = add_argument op (''--backuppassphrase'', StoreTrue, D_backuppassphrase)
      in op)"

definition RHEL6_getParser :: parser where
  "RHEL6_getParser = add_argument F12_getParser (''--cipher'', Store, D_cipher)"

definition F16_getParser :: parser where
  "F16_getParser = add_argument F12_getParser (''--nolvm'', StoreFalse, D_lvm)"

definition F17_getParser :: parser where
  "F17_getParser =
     (let op = F16_getParser;
          op = add_argument op (''--nolvm'', StoreConst AUTOPART_TYPE_PLAIN, D_type);
          op = add_argument op (''--type'', StoreTypeCb, D_type)
      in op)"

definition F18_getParser :: parser where
  "F18_getParser = add_argument F17_getParser (''--cipher'', Store, D_cipher)"

text \<open>\<^verbatim>\<open>F20_AutoPart._getParser\<close> only extends the help text of \<^verbatim>\<open>--type\<close>.\<close>

definition F20_getParser :: parser where
  "F20_getParser = F18_getParser"

definition F21_getParser :: parser where
  "F21_getParser = add_argument F20_getParser (''--fstype'', Store, D_fstype)"

definition RHEL7_getParser :: parser where
  "RHEL7_getParser = add_argument F21_getParser (''--nohome'', StoreTrue, D_nohome)"

definition F26_getParser :: parser where
  "F26_getParser =
     (let op = F21_getParser;
          op = add_argument op (''--nohome'', StoreTrue, D_nohome);
          op = add_argument op (''--noboot'', StoreTrue, D_noboot);
          op = add_argument op (''--noswap'', StoreTrue, D_noswap)
      in op)"

text \<open>\<^verbatim>\<open>self.op\<close>, built once by \<^verbatim>\<open>F9_AutoPart.__init__\<close> from the \<^verbatim>\<open>_getParser\<close> of the
  object's class (F23 inherits the one of F21). FC3 builds none.\<close>

fun getParser :: "version \<Rightarrow> parser" where
  "getParser FC3 = FC3_getParser"
| "getParser F9 = F9_getParser"
| "getParser F12 = F12_getParser"
| "getParser RHEL6 = RHEL6_getParser"
| "getParser F16 = F16_getParser"
| "getParser F17 = F17_getParser"
| "getParser F18 = F18_getParser"
| "getParser F20 = F20_getParser"
| "getParser F21 = F21_getParser"
| "getParser F23 = F21_getParser"
| "getParser RHEL7 = RHEL7_getParser"
| "getParser F26 = F26_getParser"

subsection \<open>Parsing: the \<^verbatim>\<open>parse\<close> methods\<close>

text \<open>
  Modelled from the spec: \<^verbatim>\<open>KickstartCommand.set_to_self\<close> (pykickstart/base.py is not
  part of the file). Section 4.2: parsing sets the attributes of the options of the
  version's schema and no other. Each destination of the namespace that holds a value
  is assigned to the attribute of its name; a destination left at \<^verbatim>\<open>None\<close> (an option with
  no default that was not given) leaves the attribute as it was.
\<close>

fun setattr :: "dest \<Rightarrow> val \<Rightarrow> autopart_state \<Rightarrow> autopart_state" where
  "setattr D_encrypted (VBool b) s = s\<lparr>encrypted := b\<rparr>"
| "setattr D_passphrase (VStr v) s = s\<lparr>passphrase := v\<rparr>"
| "setattr D_escrowcert (VStr v) s = s\<lparr>escrowcert := v\<rparr>"
| "setattr D_backuppassphrase (VBool b) s = s\<lparr>backuppassphrase := b\<rparr>"
| "setattr D_cipher (VStr v) s = s\<lparr>cipher := v\<rparr>"
| "setattr D_lvm (VBool b) s = s\<lparr>lvm := b\<rparr>"
| "setattr D_type (VType t) s = s\<lparr>type := Some t\<rparr>"
| "setattr D_fstype (VStr v) s = s\<lparr>fstype := v\<rparr>"
| "setattr D_nohome (VBool b) s = s\<lparr>nohome := b\<rparr>"
| "setattr D_noboot (VBool b) s = s\<lparr>noboot := b\<rparr>"
| "setattr D_noswap (VBool b) s = s\<lparr>noswap := b\<rparr>"
| "setattr d v s = s"

text \<open>The value an attribute takes from an entry of the namespace, \<open>x\<close> when the entry
  does not set it.\<close>

fun as_bool :: "val option \<Rightarrow> bool \<Rightarrow> bool" where
  "as_bool (Some (VBool b)) x = b"
| "as_bool v x = x"

fun as_str :: "val option \<Rightarrow> string \<Rightarrow> string" where
  "as_str (Some (VStr v)) x = v"
| "as_str v x = x"

fun as_type :: "val option \<Rightarrow> autopart_type option \<Rightarrow> autopart_type option" where
  "as_type (Some (VType t)) x = Some t"
| "as_type v x = x"

definition all_dests :: "dest list" where
  "all_dests = [D_encrypted, D_passphrase, D_escrowcert, D_backuppassphrase, D_cipher, D_lvm,
                D_type, D_fstype, D_nohome, D_noboot, D_noswap]"

text \<open>One turn of the loop of \<^verbatim>\<open>set_to_self\<close>, for the destination \<open>d\<close>.\<close>

definition set_one :: "namespace \<Rightarrow> dest \<Rightarrow> autopart_state \<Rightarrow> autopart_state" where
  "set_one ns d s = (case ns d of None \<Rightarrow> s | Some VNone \<Rightarrow> s | Some v \<Rightarrow> setattr d v s)"

definition set_to_self :: "namespace \<Rightarrow> autopart_state \<Rightarrow> autopart_state" where
  "set_to_self ns s = fold (set_one ns) all_dests s"

text \<open>
  \<^verbatim>\<open>self.handler\<close>: what the \<^verbatim>\<open>parse\<close> methods read of the document's handler, the
  \<^verbatim>\<open>seen\<close> flags of the other partitioning commands. \<open>reqpart_seen\<close> is \<open>None\<close> for a
  handler without a \<^verbatim>\<open>reqpart\<close> command (\<^verbatim>\<open>hasattr\<close> is false).
\<close>

record handler =
  partition_seen :: bool
  raid_seen :: bool
  volgroup_seen :: bool
  logvol_seen :: bool
  reqpart_seen :: "bool option"

text \<open>The result of a method that may raise: the error, if any, and the object as the
  method leaves it.\<close>

type_synonym outcome = "error option \<times> autopart_state"

definition FC3_parse :: "autopart_state \<Rightarrow> string list \<Rightarrow> outcome" where
  "FC3_parse s args =
     (if length args > 0 then (Some NoArguments, s)
      else (None, s\<lparr>autopart := True\<rparr>))"

definition F9_parse :: "version \<Rightarrow> autopart_state \<Rightarrow> string list \<Rightarrow> outcome" where
  "F9_parse V s args =
     (case parse_args (getParser V) (typeMap V) args of
        Inl e \<Rightarrow> (Some e, s)
      | Inr ns \<Rightarrow> (None, (set_to_self ns s)\<lparr>autopart := True\<rparr>))"

text \<open>The chain of \<^verbatim>\<open>if\<close>/\<^verbatim>\<open>elif\<close> of \<^verbatim>\<open>RHEL6_AutoPart.parse\<close> and
  \<^verbatim>\<open>F20_AutoPart.parse\<close>.\<close>

definition conflicting_command :: "handler \<Rightarrow> string" where
  "conflicting_command h =
     (if partition_seen h then ''part/partition''
      else if raid_seen h then ''raid''
      else if volgroup_seen h then ''volgroup''
      else if logvol_seen h then ''logvol''
      else [])"

definition RHEL6_parse :: "handler \<Rightarrow> autopart_state \<Rightarrow> string list \<Rightarrow> outcome" where
  "RHEL6_parse h s args =
     (case F9_parse RHEL6 s args of
        (Some e, s') \<Rightarrow> (Some e, s')
      | (None, s') \<Rightarrow>
          if conflicting_command h \<noteq> [] then (Some (ConflictingCommand (conflicting_command h)), s')
          else (None, s'))"

definition F17_parse :: "version \<Rightarrow> autopart_state \<Rightarrow> string list \<Rightarrow> outcome" where
  "F17_parse V s args =
     (case F9_parse V s args of
        (Some e, s') \<Rightarrow> (Some e, s')
      | (None, s') \<Rightarrow> (None, s'\<lparr>lvm := True\<rparr>))"

definition F20_parse :: "version \<Rightarrow> handler \<Rightarrow> autopart_state \<Rightarrow> string list \<Rightarrow> outcome" where
  "F20_parse V h s args =
     (case F17_parse V s args of
        (Some e, s') \<Rightarrow> (Some e, s')
      | (None, s') \<Rightarrow>
          if conflicting_command h \<noteq> [] then (Some (ConflictingCommand (conflicting_command h)), s')
          else (None, s'))"

definition F21_parse :: "version \<Rightarrow> handler \<Rightarrow> autopart_state \<Rightarrow> string list \<Rightarrow> outcome" where
  "F21_parse V h s args =
     (case F20_parse V h s args of
        (Some e, s') \<Rightarrow> (Some e, s')
      | (None, s') \<Rightarrow>
          if fstype s' = ''btrfs'' then (Some FstypeBtrfsNotValid, s')
          else if typeAsStr V s' = Some ''btrfs'' \<and> fstype s' \<noteq> [] then (Some FstypeWithTypeBtrfs, s')
          else (None, s'))"

text \<open>\<^verbatim>\<open>F23_AutoPart.parse\<close> and \<^verbatim>\<open>RHEL7_AutoPart.parse\<close> have the same body.\<close>

definition F23_parse :: "version \<Rightarrow> handler \<Rightarrow> autopart_state \<Rightarrow> string list \<Rightarrow> outcome" where
  "F23_parse V h s args =
     (case F21_parse V h s args of
        (Some e, s') \<Rightarrow> (Some e, s')
      | (None, s') \<Rightarrow>
          let conflicting = (if reqpart_seen h = Some True then ''reqpart'' else []) in
          if conflicting \<noteq> [] then (Some (ConflictingCommand conflicting), s')
          else (None, s'))"

definition RHEL7_parse :: "version \<Rightarrow> handler \<Rightarrow> autopart_state \<Rightarrow> string list \<Rightarrow> outcome" where
  "RHEL7_parse V h s args =
     (case F21_parse V h s args of
        (Some e, s') \<Rightarrow> (Some e, s')
      | (None, s') \<Rightarrow>
          let conflicting = (if reqpart_seen h = Some True then ''reqpart'' else []) in
          if conflicting \<noteq> [] then (Some (ConflictingCommand conflicting), s')
          else (None, s'))"

text \<open>\<^verbatim>\<open>obj.parse(args)\<close> for an object of each class, with the method each class inherits:
  F12 and F16 that of F9, F18 that of F17, F26 that of F23.\<close>

fun parse :: "version \<Rightarrow> handler \<Rightarrow> autopart_state \<Rightarrow> string list \<Rightarrow> outcome" where
  "parse FC3 h s args = FC3_parse s args"
| "parse F9 h s args = F9_parse F9 s args"
| "parse F12 h s args = F9_parse F12 s args"
| "parse RHEL6 h s args = RHEL6_parse h s args"
| "parse F16 h s args = F9_parse F16 s args"
| "parse F17 h s args = F17_parse F17 s args"
| "parse F18 h s args = F17_parse F18 s args"
| "parse F20 h s args = F20_parse F20 h s args"
| "parse F21 h s args = F21_parse F21 h s args"
| "parse F23 h s args = F23_parse F23 h s args"
| "parse RHEL7 h s args = RHEL7_parse RHEL7 h s args"
| "parse F26 h s args = F23_parse F26 h s args"

subsection \<open>The document around the command\<close>

text \<open>A handler of a document in which no other partitioning command has been seen.\<close>

definition quiet :: handler where
  "quiet = \<lparr> partition_seen = False, raid_seen = False, volgroup_seen = False,
              logvol_seen = False, reqpart_seen = None \<rparr>"

text \<open>
  Modelled from the spec: the dispatcher of the document handler (not part of the file).
  Section 4.2: the entry of the directive in the document context is marked as seen
  before the directive's own conflict validation runs; the flag stays set when \<^verbatim>\<open>parse\<close>
  raises. The pair is the \<^verbatim>\<open>seen\<close> flag of the autopart command and the command object.
\<close>

definition dispatch :: "version \<Rightarrow> handler \<Rightarrow> bool \<times> autopart_state \<Rightarrow> string list
                        \<Rightarrow> error option \<times> bool \<times> autopart_state" where
  "dispatch V h cmd args =
     (let seen = True;
          (e, s') = parse V h (snd cmd) args
      in (e, seen, s'))"

text \<open>
  Modelled from the spec: the document reader (not part of the file). Section 6: it
  supplies the tokens of a line, split on unescaped whitespace, with quoted substrings
  kept as single tokens. The quotes and the escaping backslash are not part of the token
  (Scenario 2 of section 8: the passphrase \<^verbatim>\<open>abc123\<close> is written \<^verbatim>\<open>"abc123"\<close>). Inside double
  quotes a backslash escapes a double quote or a backslash only; inside single quotes
  nothing is special.
\<close>

abbreviation sq :: char where "sq \<equiv> CHR 0x27"
abbreviation bs :: char where "bs \<equiv> CHR 0x5C"

datatype quoting = Unquoted | DoubleQuoted | SingleQuoted

fun tok_of :: "string option \<Rightarrow> string" where
  "tok_of None = []"
| "tok_of (Some t) = t"

fun split_aux :: "quoting \<Rightarrow> string option \<Rightarrow> string \<Rightarrow> string list" where
  "split_aux q cur [] = (case cur of None \<Rightarrow> [] | Some t \<Rightarrow> [t])"
| "split_aux Unquoted cur (c # cs) =
     (if isspace c then
        (case cur of
           None \<Rightarrow> split_aux Unquoted None cs
         | Some t \<Rightarrow> t # split_aux Unquoted None cs)
      else if c = dq then split_aux DoubleQuoted (Some (tok_of cur)) cs
      else if c = sq then split_aux SingleQuoted (Some (tok_of cur)) cs
      else if c = bs then
        (case cs of
           [] \<Rightarrow> [tok_of cur]
         | d # ds \<Rightarrow> split_aux Unquoted (Some (tok_of cur @ [d])) ds)
      else split_aux Unquoted (Some (tok_of cur @ [c])) cs)"
| "split_aux DoubleQuoted cur (c # cs) =
     (if c = dq then split_aux Unquoted cur cs
      else if c = bs then
        (case cs of
           [] \<Rightarrow> [tok_of cur @ [c]]
         | d # ds \<Rightarrow>
             if d = dq \<or> d = bs then split_aux DoubleQuoted (Some (tok_of cur @ [d])) ds
             else split_aux DoubleQuoted (Some (tok_of cur @ [c, d])) ds)
      else split_aux DoubleQuoted (Some (tok_of cur @ [c])) cs)"
| "split_aux SingleQuoted cur (c # cs) =
     (if c = sq then split_aux Unquoted cur cs
      else split_aux SingleQuoted (Some (tok_of cur @ [c])) cs)"

definition read_line :: "string \<Rightarrow> string list" where
  "read_line l = split_aux Unquoted None l"

text \<open>Reading a serialised directive back: the first token of the line is the keyword,
  the others are the arguments given to \<^verbatim>\<open>parse\<close> of a new command object. \<open>None\<close> when
  the text holds no autopart line.\<close>

definition reparse :: "version \<Rightarrow> handler \<Rightarrow> string \<Rightarrow> outcome option" where
  "reparse V h text =
     (case read_line text of
        [] \<Rightarrow> None
      | kw # args \<Rightarrow> if kw = ''autopart'' then Some (parse V h init args) else None)"

text \<open>The option strings that the parser of a class knows, and those of all classes.\<close>

definition option_strings :: "version \<Rightarrow> string list" where
  "option_strings V = map fst (getParser V)"

definition all_option_strings :: "string list" where
  "all_option_strings =
     [''--encrypted'', ''--passphrase'', ''--escrowcert'', ''--backuppassphrase'', ''--cipher'',
      ''--nolvm'', ''--type'', ''--fstype'', ''--nohome'', ''--noboot'', ''--noswap'']"

text \<open>The errors that the option parser raises.\<close>

fun parser_error :: "error \<Rightarrow> bool" where
  "parser_error (UnrecognizedArguments extras) = True"
| "parser_error (AmbiguousOption arg matches) = True"
| "parser_error (ExpectedOneArgument opt) = True"
| "parser_error (IgnoredExplicitArgument opt arg) = True"
| "parser_error (InvalidAutopartType v) = True"
| "parser_error e = False"

text \<open>A string has one line: it is \<^verbatim>\<open>autopart\<close>, a body without line terminator, and one
  line terminator.\<close>

definition one_line :: "string \<Rightarrow> bool" where
  "one_line r = (\<exists>b. r = ''autopart'' @ b @ [nl] \<and> nl \<notin> set b)"

subsection \<open>The round trip: the conditions and the notions of its proof\<close>

text \<open>\<open>bare\<close>: no character of the string is whitespace, a quote or a backslash, so the
  reader takes it as it is outside quotes. \<open>quotable\<close>: no character is a double quote or a
  backslash, so the reader takes it as it is inside double quotes.\<close>

definition bare :: "string \<Rightarrow> bool" where
  "bare v = list_all (\<lambda>c. \<not> isspace c \<and> c \<noteq> dq \<and> c \<noteq> sq \<and> c \<noteq> bs) v"

definition quotable :: "string \<Rightarrow> bool" where
  "quotable v = list_all (\<lambda>c. c \<noteq> dq \<and> c \<noteq> bs) v"

text \<open>The states whose serialised form says everything they hold: the attributes that
  \<^verbatim>\<open>__str__\<close> writes only together with \<^verbatim>\<open>--encrypted\<close> (or \<^verbatim>\<open>--escrowcert\<close>) are at their
  default when that prerequisite is not set, and the strings survive being written
  (between double quotes, the file system type without quotes) and read back.\<close>

definition round_trippable :: "autopart_state \<Rightarrow> bool" where
  "round_trippable s =
     ((encrypted s \<or> (passphrase s = [] \<and> escrowcert s = [] \<and> cipher s = []))
      \<and> ((encrypted s \<and> escrowcert s \<noteq> []) \<or> \<not> backuppassphrase s)
      \<and> quotable (passphrase s) \<and> quotable (escrowcert s) \<and> quotable (cipher s)
      \<and> bare (fstype s))"

text \<open>One option as a \<^verbatim>\<open>__str__\<close> method may write it: whether it is written, the text
  written after the blank, the token the reader makes of that text, and the attribute and
  value the parser stores for the token. A flag is written by its name, a quoted value as
  \<^verbatim>\<open>name="value"\<close>, a plain value as \<^verbatim>\<open>name=value\<close>.\<close>

datatype item = Item (guard: bool) (written: string) (token: string) (target: dest) (stored: val)

definition flag :: "bool \<Rightarrow> string \<Rightarrow> dest \<Rightarrow> val \<Rightarrow> item" where
  "flag g name d v = Item g name name d v"

definition quoted :: "bool \<Rightarrow> string \<Rightarrow> string \<Rightarrow> dest \<Rightarrow> item" where
  "quoted g name x d = Item g (name @ CHR ''='' # dq # x @ [dq]) (name @ CHR ''='' # x) d (VStr x)"

definition plainval :: "bool \<Rightarrow> string \<Rightarrow> string \<Rightarrow> dest \<Rightarrow> val \<Rightarrow> item" where
  "plainval g name x d v = Item g (name @ CHR ''='' # x) (name @ CHR ''='' # x) d v"

text \<open>The line with the written items, the part of it after \<^verbatim>\<open>autopart\<close>, the tokens of the
  written items, and the store of one item into a namespace.\<close>

definition body_of :: "item list \<Rightarrow> string" where
  "body_of its = concat (map (\<lambda>i. if guard i then CHR '' '' # written i else []) its)"

definition text_of :: "item list \<Rightarrow> string" where
  "text_of its = ''autopart'' @ concat (map (\<lambda>i. if guard i then CHR '' '' # written i else []) its) @ [nl]"

definition tokens_of :: "item list \<Rightarrow> string list" where
  "tokens_of its = concat (map (\<lambda>i. if guard i then [token i] else []) its)"

definition put :: "item \<Rightarrow> namespace \<Rightarrow> namespace" where
  "put i ns = (if guard i then ns(target i \<mapsto> stored i) else ns)"

text \<open>The assignment made by an argument string that is an option complete in itself: a flag,
  or an option with its value after \<^verbatim>\<open>=\<close>. \<open>None\<close> for any other string.\<close>

definition complete :: "parser \<Rightarrow> (string \<times> autopart_type) list \<Rightarrow> string \<Rightarrow> (dest \<times> val) option" where
  "complete op tm arg =
     (if arg = ''--'' then None
      else case parse_optional op arg of
        Inr (Opt (Some (a, d)) os None) \<Rightarrow>
          (case a of
             StoreTrue \<Rightarrow> Some (d, VBool True)
           | StoreFalse \<Rightarrow> Some (d, VBool False)
           | StoreConst c \<Rightarrow> Some (d, VType c)
           | _ \<Rightarrow> None)
      | Inr (Opt (Some (a, d)) os (Some v)) \<Rightarrow>
          (case a of
             Store \<Rightarrow> Some (d, VStr v)
           | StoreTypeCb \<Rightarrow> (case type_cb tm v of Inr t \<Rightarrow> Some (d, VType t) | Inl e \<Rightarrow> None)
           | _ \<Rightarrow> None)
      | _ \<Rightarrow> None)"

text \<open>An invariant of the namespace while the arguments are consumed: only destinations of
  registered options are set, and every type value stored is a value of the type map.
  \<open>from_parser\<close>: the action of a token comes from the parser.\<close>

definition from_parser :: "parser \<Rightarrow> tok \<Rightarrow> bool" where
  "from_parser op t = (case t of Opt (Some ad) os e \<Rightarrow> ad \<in> snd ` set op | _ \<Rightarrow> True)"

definition ns_inv :: "parser \<Rightarrow> (string \<times> autopart_type) list \<Rightarrow> namespace \<Rightarrow> bool" where
  "ns_inv op tm ns =
     ((\<forall>d. d \<notin> (snd \<circ> snd) ` set op \<longrightarrow> ns d = None)
      \<and> (\<forall>d t. ns d = Some (VType t) \<longrightarrow> t \<in> snd ` set tm))"

text \<open>The items of the \<^verbatim>\<open>__str__\<close> method of each class, in the order in which the chain of
  methods appends them.\<close>

definition F9_items :: "autopart_state \<Rightarrow> item list" where
  "F9_items s =
     [flag (encrypted s) ''--encrypted'' D_encrypted (VBool True),
      quoted (encrypted s \<and> passphrase s \<noteq> []) ''--passphrase'' (passphrase s) D_passphrase]"

definition F12_items :: "autopart_state \<Rightarrow> item list" where
  "F12_items s =
     [quoted (encrypted s \<and> escrowcert s \<noteq> []) ''--escrowcert'' (escrowcert s) D_escrowcert,
      flag (encrypted s \<and> escrowcert s \<noteq> [] \<and> backuppassphrase s) ''--backuppassphrase''
        D_backuppassphrase (VBool True)]"

definition cipher_item :: "autopart_state \<Rightarrow> item" where
  "cipher_item s = quoted (encrypted s \<and> cipher s \<noteq> []) ''--cipher'' (cipher s) D_cipher"

definition F16_item :: "autopart_state \<Rightarrow> item" where
  "F16_item s = flag (\<not> lvm s) ''--nolvm'' D_lvm (VBool False)"

definition F17_item :: "version \<Rightarrow> autopart_state \<Rightarrow> item" where
  "F17_item V s =
     (case typeAsStr V s of
        None \<Rightarrow> plainval False ''--type'' [] D_type VNone
      | Some ty \<Rightarrow> plainval (ty \<noteq> []) ''--type'' ty D_type
                    (case type s of None \<Rightarrow> VNone | Some t \<Rightarrow> VType t))"

definition F21_item :: "autopart_state \<Rightarrow> item" where
  "F21_item s = plainval (fstype s \<noteq> []) ''--fstype'' (fstype s) D_fstype (VStr (fstype s))"

definition F17_items :: "version \<Rightarrow> autopart_state \<Rightarrow> item list" where
  "F17_items V s = F9_items s @ F12_items s @ [F16_item s, F17_item V s]"

definition F21_items :: "version \<Rightarrow> autopart_state \<Rightarrow> item list" where
  "F21_items V s = F17_items V s @ [cipher_item s, F21_item s]"

fun items :: "version \<Rightarrow> autopart_state \<Rightarrow> item list" where
  "items FC3 s = []"
| "items F9 s = F9_items s"
| "items F12 s = F9_items s @ F12_items s"
| "items RHEL6 s = F9_items s @ F12_items s @ [cipher_item s]"
| "items F16 s = F9_items s @ F12_items s @ [F16_item s]"
| "items F17 s = F17_items F17 s"
| "items F18 s = F17_items F18 s @ [cipher_item s]"
| "items F20 s = F17_items F20 s @ [cipher_item s]"
| "items F21 s = F21_items F21 s"
| "items F23 s = F21_items F23 s"
| "items RHEL7 s = F21_items RHEL7 s @ [flag (nohome s) ''--nohome'' D_nohome (VBool True)]"
| "items F26 s = F21_items F26 s @
     [flag (nohome s) ''--nohome'' D_nohome (VBool True),
      flag (noboot s) ''--noboot'' D_noboot (VBool True),
      flag (noswap s) ''--noswap'' D_noswap (VBool True)]"

text \<open>Every written item ends in a character that \<^verbatim>\<open>strip\<close> leaves; the reader makes of
  every written item its token; the parser of the class stores for every written item its
  attribute and value.\<close>

definition tidy :: "item list \<Rightarrow> bool" where
  "tidy its = (\<forall>i\<in>set its. guard i \<longrightarrow> written i \<noteq> [] \<and> \<not> isspace (last (written i)))"

definition lexable :: "item list \<Rightarrow> bool" where
  "lexable its = (\<forall>i\<in>set its. guard i \<longrightarrow>
     (\<forall>rest. split_aux Unquoted None (written i @ rest) = split_aux Unquoted (Some (token i)) rest))"

definition completes :: "version \<Rightarrow> item list \<Rightarrow> bool" where
  "completes V its = (\<forall>i\<in>set its. guard i \<longrightarrow>
     complete (getParser V) (typeMap V) (token i) = Some (target i, stored i))"

section \<open>Properties\<close>

text \<open>
  Claim C8. For every target version, a command object whose \<^verbatim>\<open>autopart\<close> attribute
  (the present flag) is false serialises to the empty string, whatever the other
  attributes hold.
\<close>

theorem str_absent_empty: "\<not> autopart s \<Longrightarrow> str V s = []"
  by (cases V)
     (simp_all add: FC3_str_def F9_str_def F12_str_def RHEL6_str_def F16_str_def F17_str_def
        F18_str_def F21_str_def RHEL7_str_def F26_str_def KickstartCommand_str_def)

theorem str_absent_empty_witness:
  "\<not> autopart (init\<lparr>encrypted := True, passphrase := ''abc'', fstype := ''ext4'', nohome := True\<rparr>)
   \<and> str F26 (init\<lparr>encrypted := True, passphrase := ''abc'', fstype := ''ext4'', nohome := True\<rparr>) = []"
  using str_absent_empty [of "init\<lparr>encrypted := True, passphrase := ''abc'', fstype := ''ext4'', nohome := True\<rparr>" F26]
  by (simp add: init_def)

lemmas str_defs = FC3_str_def F9_str_def F12_str_def RHEL6_str_def F16_str_def F17_str_def
        F18_str_def F21_str_def RHEL7_str_def F26_str_def KickstartCommand_str_def

lemma typeAsStr_upd [simp]:
  "typeAsStr V (s\<lparr>passphrase := p\<rparr>) = typeAsStr V s"
  "typeAsStr V (s\<lparr>escrowcert := e\<rparr>) = typeAsStr V s"
  "typeAsStr V (s\<lparr>cipher := c\<rparr>) = typeAsStr V s"
  by (simp_all add: typeAsStr_def)

lemma gated_F12:
  "\<not> encrypted s \<Longrightarrow> F12_str (s\<lparr>passphrase := p, escrowcert := e, cipher := c\<rparr>) = F12_str s"
  by (simp add: F12_str_def F9_str_def Let_def)

lemma gated_F16:
  "\<not> encrypted s \<Longrightarrow> F16_str (s\<lparr>passphrase := p, escrowcert := e, cipher := c\<rparr>) = F16_str s"
  by (simp add: F16_str_def gated_F12 Let_def)

lemma gated_F18:
  "\<not> encrypted s \<Longrightarrow> F18_str V (s\<lparr>passphrase := p, escrowcert := e, cipher := c\<rparr>) = F18_str V s"
  by (simp add: F18_str_def F17_str_def gated_F16 Let_def)

lemma gated_F21:
  "\<not> encrypted s \<Longrightarrow> F21_str V (s\<lparr>passphrase := p, escrowcert := e, cipher := c\<rparr>) = F21_str V s"
  by (simp add: F21_str_def gated_F18 Let_def)

text \<open>
  Claim C7. When \<^verbatim>\<open>encrypted\<close> is false the values of \<^verbatim>\<open>passphrase\<close>, \<^verbatim>\<open>escrowcert\<close> and
  \<^verbatim>\<open>cipher\<close> are never emitted: for every target version the serialised output is the
  same whatever these three attributes hold, so it is the output of the state in which
  they are empty.
\<close>

theorem gated_by_encrypted:
  assumes "\<not> encrypted s"
  shows "str V (s\<lparr>passphrase := p, escrowcert := e, cipher := c\<rparr>) = str V s"
proof (cases V)
  case FC3 then show ?thesis by (simp add: FC3_str_def)
next
  case F9 then show ?thesis using assms by (simp add: F9_str_def Let_def)
next
  case F12 then show ?thesis using assms by (simp add: gated_F12)
next
  case RHEL6 then show ?thesis using assms by (simp add: RHEL6_str_def gated_F12 Let_def)
next
  case F16 then show ?thesis using assms by (simp add: gated_F16)
next
  case F17 then show ?thesis using assms by (simp add: F17_str_def gated_F16 Let_def)
next
  case RHEL7 then show ?thesis using assms by (simp add: RHEL7_str_def gated_F21 Let_def)
next
  case F26 then show ?thesis using assms by (simp add: F26_str_def gated_F21 Let_def)
qed (use assms in \<open>simp_all add: gated_F18 gated_F21\<close>)

theorem gated_by_encrypted_witness:
  "\<not> encrypted (init\<lparr>autopart := True\<rparr>)
   \<and> str F18 (init\<lparr>autopart := True, passphrase := ''abc'', escrowcert := ''u'', cipher := ''aes''\<rparr>)
     = str F18 (init\<lparr>autopart := True\<rparr>)"
  using gated_by_encrypted [where s = "init\<lparr>autopart := True\<rparr>" and V = F18 and p = "''abc''"
      and e = "''u''" and c = "''aes''"]
  by (simp add: init_def)

subsection \<open>Lines and their terminator\<close>

lemma isspace_nl: "isspace nl"
  by (simp add: isspace_def)

lemma strip_autopart:
  "strip (''autopart'' @ b @ [nl]) = ''autopart'' @ rev (dropWhile isspace (rev b))"
proof -
  have a: "\<not> isspace (CHR ''a'')" by (simp add: isspace_def)
  have t: "\<not> isspace (CHR ''t'')" by (simp add: isspace_def)
  have "dropWhile isspace (''autopart'' @ b @ [nl]) = ''autopart'' @ b @ [nl]"
    using a by simp
  moreover have "dropWhile isspace (rev (''autopart'' @ b @ [nl])) = dropWhile isspace (rev b) @ rev ''autopart''"
  proof (cases "\<forall>x\<in>set (rev b). isspace x")
    case True
    then show ?thesis using t isspace_nl by (simp add: dropWhile_append)
  next
    case False
    then show ?thesis using isspace_nl by (simp add: dropWhile_append)
  qed
  ultimately show ?thesis by (simp add: strip_def)
qed

lemma one_line_step:
  assumes "one_line r" "nl \<notin> set frag"
  shows "one_line (strip r @ frag @ [nl])"
proof -
  from assms obtain b where r: "r = ''autopart'' @ b @ [nl]" and b: "nl \<notin> set b"
    by (auto simp: one_line_def)
  have "set (rev (dropWhile isspace (rev b))) \<subseteq> set b"
    using set_dropWhileD by fastforce
  with b have nb: "nl \<notin> set (rev (dropWhile isspace (rev b)))" by blast
  have "strip r @ frag @ [nl] = ''autopart'' @ (rev (dropWhile isspace (rev b)) @ frag) @ [nl]"
    unfolding r strip_autopart by simp
  moreover have "nl \<notin> set (rev (dropWhile isspace (rev b)) @ frag)"
    using nb assms(2) by simp
  ultimately show ?thesis unfolding one_line_def by blast
qed

lemmas parser_defs = FC3_getParser_def F9_getParser_def F12_getParser_def RHEL6_getParser_def
  F16_getParser_def F17_getParser_def F18_getParser_def F20_getParser_def F21_getParser_def
  RHEL7_getParser_def F26_getParser_def add_argument_def

subsection \<open>set_to_self field by field\<close>

lemma set_one_fields:
  "autopart (set_one ns d s) = autopart s"
  "encrypted (set_one ns d s) = (if d = D_encrypted then as_bool (ns d) (encrypted s) else encrypted s)"
  "passphrase (set_one ns d s) = (if d = D_passphrase then as_str (ns d) (passphrase s) else passphrase s)"
  "escrowcert (set_one ns d s) = (if d = D_escrowcert then as_str (ns d) (escrowcert s) else escrowcert s)"
  "backuppassphrase (set_one ns d s) = (if d = D_backuppassphrase then as_bool (ns d) (backuppassphrase s) else backuppassphrase s)"
  "cipher (set_one ns d s) = (if d = D_cipher then as_str (ns d) (cipher s) else cipher s)"
  "lvm (set_one ns d s) = (if d = D_lvm then as_bool (ns d) (lvm s) else lvm s)"
  "type (set_one ns d s) = (if d = D_type then as_type (ns d) (type s) else type s)"
  "fstype (set_one ns d s) = (if d = D_fstype then as_str (ns d) (fstype s) else fstype s)"
  "nohome (set_one ns d s) = (if d = D_nohome then as_bool (ns d) (nohome s) else nohome s)"
  "noboot (set_one ns d s) = (if d = D_noboot then as_bool (ns d) (noboot s) else noboot s)"
  "noswap (set_one ns d s) = (if d = D_noswap then as_bool (ns d) (noswap s) else noswap s)"
  by (cases d; cases "ns d"; (cases "the (ns d)")?; simp add: set_one_def)+

lemma set_to_self_fields:
  "autopart (set_to_self ns s) = autopart s"
  "encrypted (set_to_self ns s) = as_bool (ns D_encrypted) (encrypted s)"
  "passphrase (set_to_self ns s) = as_str (ns D_passphrase) (passphrase s)"
  "escrowcert (set_to_self ns s) = as_str (ns D_escrowcert) (escrowcert s)"
  "backuppassphrase (set_to_self ns s) = as_bool (ns D_backuppassphrase) (backuppassphrase s)"
  "cipher (set_to_self ns s) = as_str (ns D_cipher) (cipher s)"
  "lvm (set_to_self ns s) = as_bool (ns D_lvm) (lvm s)"
  "type (set_to_self ns s) = as_type (ns D_type) (type s)"
  "fstype (set_to_self ns s) = as_str (ns D_fstype) (fstype s)"
  "nohome (set_to_self ns s) = as_bool (ns D_nohome) (nohome s)"
  "noboot (set_to_self ns s) = as_bool (ns D_noboot) (noboot s)"
  "noswap (set_to_self ns s) = as_bool (ns D_noswap) (noswap s)"
  by (simp_all add: set_to_self_def all_dests_def set_one_fields)

subsection \<open>Reading one argument string\<close>

lemma parse_optional_exact:
  "map_of op os = Some ad \<Longrightarrow> os \<noteq> [] \<Longrightarrow> hd os = CHR ''-'' \<Longrightarrow>
   parse_optional op os = Inr (Opt (Some ad) os None)"
  by (simp add: parse_optional_def)

lemma split_eq_append:
  "CHR ''='' \<notin> set os \<Longrightarrow> split_eq (os @ CHR ''='' # v) = (os, v)"
proof -
  assume "CHR ''='' \<notin> set os"
  then have "\<forall>x\<in>set os. x \<noteq> CHR ''=''" by auto
  then show ?thesis by (simp add: split_eq_def takeWhile_append2 dropWhile_append2)
qed

lemma parse_optional_explicit:
  assumes "map_of op os = Some ad" "os \<noteq> []" "hd os = CHR ''-''" "CHR ''='' \<notin> set os"
    and "map_of op (os @ CHR ''='' # v) = None"
  shows "parse_optional op (os @ CHR ''='' # v) = Inr (Opt (Some ad) os (Some v))"
  using assms by (simp add: parse_optional_def split_eq_append)

lemma map_of_no_eq:
  "\<forall>os\<in>fst ` set op. CHR ''='' \<notin> set os \<Longrightarrow> map_of op (os @ CHR ''='' # v) = None"
  by (force simp: map_of_eq_None_iff)

subsection \<open>Errors of the option parser\<close>

lemma parse_optional_error: "parse_optional op arg = Inl e \<Longrightarrow> parser_error e"
  by (auto simp: parse_optional_def Let_def split: option.splits if_splits prod.splits)

lemma classify_error: "classify op args = Inl e \<Longrightarrow> parser_error e"
  by (induction args arbitrary: e)
     (auto split: if_splits sum.splits dest: parse_optional_error)

lemma take_action_error: "take_action tm a d v ns = Inl e \<Longrightarrow> parser_error e"
  by (cases a) (auto simp: type_cb_def split: option.splits sum.splits)

lemma consume_error: "consume tm ts ns extras = Inl e \<Longrightarrow> parser_error e"
  by (induction tm ts ns extras rule: consume.induct)
     (auto split: if_splits sum.splits list.splits prod.splits tok.splits dest: take_action_error)

lemma parse_args_error: "parse_args op tm args = Inl e \<Longrightarrow> parser_error e"
  by (auto simp: parse_args_def split: sum.splits prod.splits if_splits
           dest: classify_error consume_error)

subsection \<open>What parse does with the result of the option parser\<close>

lemmas parse_defs = F9_parse_def RHEL6_parse_def F17_parse_def F20_parse_def F21_parse_def
  F23_parse_def RHEL7_parse_def

lemma parse_failure:
  "V \<noteq> FC3 \<Longrightarrow> parse_args (getParser V) (typeMap V) args = Inl e \<Longrightarrow> parse V h s args = (Some e, s)"
  by (cases V) (simp_all add: parse_defs)

lemma parse_state:
  "V \<noteq> FC3 \<Longrightarrow> parse_args (getParser V) (typeMap V) args = Inr ns \<Longrightarrow>
   snd (parse V h s args) =
     (if derives V F17 then (set_to_self ns s)\<lparr>autopart := True, lvm := True\<rparr>
      else (set_to_self ns s)\<lparr>autopart := True\<rparr>)"
  by (cases V) (simp_all add: parse_defs derives_def Let_def)

lemma parse_error_kind:
  "V \<noteq> FC3 \<Longrightarrow> parse_args (getParser V) (typeMap V) args = Inr ns \<Longrightarrow>
   fst (parse V h s args) = Some e \<Longrightarrow>
   (\<exists>c. e = ConflictingCommand c) \<or> e = FstypeBtrfsNotValid \<or> e = FstypeWithTypeBtrfs"
  by (cases V) (auto simp: parse_defs Let_def split: if_splits)

subsection \<open>Parsing short argument lists\<close>

lemma no_eq_in_options: "\<forall>os\<in>fst ` set (getParser V). CHR ''='' \<notin> set os"
  by (cases V) (simp_all add: parser_defs)

lemma F17_options:
  "derives V F17 \<Longrightarrow>
   map_of (getParser V) ''--nolvm'' = Some (StoreConst AUTOPART_TYPE_PLAIN, D_type) \<and>
   map_of (getParser V) ''--type'' = Some (StoreTypeCb, D_type)"
  by (cases V) (simp_all add: derives_def parser_defs)

lemma parse_optional_type:
  assumes "derives V F17"
  shows "parse_optional (getParser V) (''--type='' @ v) = Inr (Opt (Some (StoreTypeCb, D_type)) ''--type'' (Some v))"
  using parse_optional_explicit [of "getParser V" "''--type''" "(StoreTypeCb, D_type)" v]
    F17_options [OF assms] map_of_no_eq [OF no_eq_in_options, of V "''--type''" v]
  by simp

lemma parse_optional_nolvm:
  assumes "derives V F17"
  shows "parse_optional (getParser V) ''--nolvm'' = Inr (Opt (Some (StoreConst AUTOPART_TYPE_PLAIN, D_type)) ''--nolvm'' None)"
  using parse_optional_exact [of "getParser V" "''--nolvm''"] F17_options [OF assms]
  by simp

lemma derives_F17_not_FC3: "derives V F17 \<Longrightarrow> V \<noteq> FC3"
  by (auto simp: derives_def)

text \<open>
  Claim C2, as amended. Under F17 and later, \<^verbatim>\<open>--nolvm\<close> and \<^verbatim>\<open>--type\<close> store into the same
  attribute \<^verbatim>\<open>type\<close>, and when both are given the one whose token comes later on the line
  determines it: \<^verbatim>\<open>--nolvm --type=v\<close> leaves the type that \<^verbatim>\<open>v\<close> names, \<^verbatim>\<open>--type=v --nolvm\<close>
  leaves \<^verbatim>\<open>AUTOPART_TYPE_PLAIN\<close>.
\<close>

theorem last_token_wins:
  assumes "derives V F17" and "map_of (typeMap V) (lower v) = Some t"
  shows "type (snd (parse V h s [''--nolvm'', ''--type='' @ v])) = Some t
       \<and> type (snd (parse V h s [''--type='' @ v, ''--nolvm''])) = Some AUTOPART_TYPE_PLAIN"
proof -
  let ?op = "getParser V" and ?tm = "typeMap V"
  have a: "parse_args ?op ?tm [''--nolvm'', ''--type='' @ v]
           = Inr ((defaults ?op)(D_type \<mapsto> VType t))"
    using assms(2)
    by (simp add: parse_args_def parse_optional_type [OF assms(1), simplified]
          parse_optional_nolvm [OF assms(1)] type_cb_def)
  have b: "parse_args ?op ?tm [''--type='' @ v, ''--nolvm'']
           = Inr ((defaults ?op)(D_type \<mapsto> VType AUTOPART_TYPE_PLAIN))"
    using assms(2)
    by (simp add: parse_args_def parse_optional_type [OF assms(1), simplified]
          parse_optional_nolvm [OF assms(1)] type_cb_def)
  show ?thesis
    using assms(1) parse_state [OF derives_F17_not_FC3 [OF assms(1)] a, of h s]
      parse_state [OF derives_F17_not_FC3 [OF assms(1)] b, of h s]
    by (simp add: set_to_self_fields)
qed

theorem last_token_wins_witness:
  "derives F20 F17 \<and> map_of (typeMap F20) (lower ''LVM'') = Some AUTOPART_TYPE_LVM
   \<and> type (snd (parse F20 quiet init [''--nolvm'', ''--type=LVM''])) = Some AUTOPART_TYPE_LVM
   \<and> type (snd (parse F20 quiet init [''--type=LVM'', ''--nolvm''])) = Some AUTOPART_TYPE_PLAIN"
proof -
  have d: "derives F20 F17" by (simp add: derives_def)
  have m: "map_of (typeMap F20) (lower ''LVM'') = Some AUTOPART_TYPE_LVM" by code_simp
  show ?thesis using d m last_token_wins [OF d m, of quiet init] by simp
qed

text \<open>
  Claim C2 as stated fails: under F17 the line \<^verbatim>\<open>autopart --type=lvm --nolvm\<close> parses, and
  the type it leaves is not the one that \<^verbatim>\<open>--type\<close>, the option registered later, asks for.
\<close>

theorem schema_order_counterexample:
  "fst (parse F17 quiet init [''--type=lvm'', ''--nolvm'']) = None
   \<and> type (snd (parse F17 quiet init [''--type=lvm''])) = Some AUTOPART_TYPE_LVM
   \<and> type (snd (parse F17 quiet init [''--type=lvm'', ''--nolvm''])) \<noteq> Some AUTOPART_TYPE_LVM"
  by code_simp

subsection \<open>Conflicts with other partitioning commands\<close>

lemma checks_conflicts_not_FC3: "derives V RHEL6 \<or> derives V F20 \<Longrightarrow> V \<noteq> FC3"
  by (auto simp: derives_def)

text \<open>
  Claim C4, as amended. Under RHEL6 and under F20 and later, parsing \<^verbatim>\<open>autopart\<close> after a
  \<^verbatim>\<open>partition\<close> directive has been seen always fails: with the error of the option parser
  when the arguments are not accepted, and otherwise with the conflict error that names
  \<^verbatim>\<open>part/partition\<close> and autopart. (FC3, F9, F12, F16, F17 and F18 make no such check.)
\<close>

theorem conflict_with_partition:
  assumes "derives V RHEL6 \<or> derives V F20" and "partition_seen h"
  shows "fst (parse V h s args) =
           (case parse_args (getParser V) (typeMap V) args of
              Inl e \<Rightarrow> Some e
            | Inr ns \<Rightarrow> Some (ConflictingCommand ''part/partition''))"
proof (cases "parse_args (getParser V) (typeMap V) args")
  case (Inl e)
  then show ?thesis
    using parse_failure [OF checks_conflicts_not_FC3 [OF assms(1)], of args e h s] by simp
next
  case (Inr ns)
  then show ?thesis using assms
    by (cases V) (simp_all add: derives_def parse_defs conflicting_command_def)
qed

theorem conflict_with_partition_witness:
  "(derives F26 RHEL6 \<or> derives F26 F20) \<and> partition_seen (quiet\<lparr>partition_seen := True\<rparr>)
   \<and> fst (parse F26 (quiet\<lparr>partition_seen := True\<rparr>) init [''--nohome''])
       = Some (ConflictingCommand ''part/partition'')"
proof -
  have d: "derives F26 RHEL6 \<or> derives F26 F20" by (simp add: derives_def)
  have p: "partition_seen (quiet\<lparr>partition_seen := True\<rparr>)" by simp
  have a: "(case parse_args (getParser F26) (typeMap F26) [''--nohome''] of
              Inl e \<Rightarrow> Some e
            | Inr ns \<Rightarrow> Some (ConflictingCommand ''part/partition''))
           = Some (ConflictingCommand ''part/partition'')"
    by code_simp
  show ?thesis
    using d p conflict_with_partition [OF d p, of init "[''--nohome'']"] by (simp only: a)
qed

text \<open>
  Claim C4 as stated fails: under F18, which inherits \<^verbatim>\<open>parse\<close> from F17 and F9, the
  directive parses although a \<^verbatim>\<open>partition\<close> directive has been seen.
\<close>

theorem conflict_check_counterexample:
  "partition_seen (quiet\<lparr>partition_seen := True\<rparr>)
   \<and> parse F18 (quiet\<lparr>partition_seen := True\<rparr>) init [] = (None, init\<lparr>autopart := True\<rparr>)"
  by code_simp

text \<open>
  Claim C5. When parsing aborts with a conflict error, the command has already been
  marked as seen by the dispatcher, its \<^verbatim>\<open>autopart\<close> attribute (the present flag) is true
  and the attributes of the supplied options have been applied: the object is the one
  \<^verbatim>\<open>set_to_self\<close> leaves (with \<^verbatim>\<open>lvm\<close> reset from F17 on), not the object before the call.
\<close>

theorem conflict_leaves_state_applied:
  assumes "dispatch V h (seen, s) args = (Some (ConflictingCommand c), seen', s')"
  shows "seen' \<and> autopart s' \<and>
         (\<exists>ns. parse_args (getParser V) (typeMap V) args = Inr ns \<and>
            s' = (if derives V F17 then (set_to_self ns s)\<lparr>autopart := True, lvm := True\<rparr>
                  else (set_to_self ns s)\<lparr>autopart := True\<rparr>))"
proof -
  from assms have p: "parse V h s args = (Some (ConflictingCommand c), s')" and seen: "seen'"
    by (auto simp: dispatch_def split: prod.splits)
  have nf: "V \<noteq> FC3" using p by (auto simp: FC3_parse_def split: if_splits)
  show ?thesis
  proof (cases "parse_args (getParser V) (typeMap V) args")
    case (Inl e)
    then have "parse V h s args = (Some e, s)" using nf by (rule parse_failure [rotated])
    with p have "e = ConflictingCommand c" by simp
    with parse_args_error [OF Inl] show ?thesis by simp
  next
    case (Inr ns)
    from parse_state [OF nf Inr, of h s] p
    have s': "s' = (if derives V F17 then (set_to_self ns s)\<lparr>autopart := True, lvm := True\<rparr>
                  else (set_to_self ns s)\<lparr>autopart := True\<rparr>)" by simp
    then have "autopart s'" by simp
    with seen s' Inr show ?thesis by blast
  qed
qed

theorem conflict_leaves_state_applied_witness:
  "dispatch F20 (quiet\<lparr>raid_seen := True\<rparr>) (False, init) [''--encrypted'', ''--passphrase=abc'']
     = (Some (ConflictingCommand ''raid''), True,
        init\<lparr>autopart := True, encrypted := True, passphrase := ''abc''\<rparr>)
   \<and> autopart (init\<lparr>autopart := True, encrypted := True, passphrase := ''abc''\<rparr>)
   \<and> (\<exists>ns. parse_args (getParser F20) (typeMap F20) [''--encrypted'', ''--passphrase=abc''] = Inr ns \<and>
          init\<lparr>autopart := True, encrypted := True, passphrase := ''abc''\<rparr>
            = (set_to_self ns init)\<lparr>autopart := True, lvm := True\<rparr>)"
proof -
  have d: "dispatch F20 (quiet\<lparr>raid_seen := True\<rparr>) (False, init) [''--encrypted'', ''--passphrase=abc'']
     = (Some (ConflictingCommand ''raid''), True,
        init\<lparr>autopart := True, encrypted := True, passphrase := ''abc''\<rparr>)"
    by code_simp
  show ?thesis using d conflict_leaves_state_applied [OF d] by (simp add: derives_def)
qed

subsection \<open>The lvm attribute from F17 on\<close>

text \<open>
  Claim C10. Under F17 and later every successful parse leaves \<^verbatim>\<open>lvm\<close> true, so the
  serialisation step of F16 adds no \<^verbatim>\<open>--nolvm\<close> to what F12 wrote; the option \<^verbatim>\<open>--nolvm\<close>
  sets the \<^verbatim>\<open>type\<close> attribute to \<^verbatim>\<open>AUTOPART_TYPE_PLAIN\<close> instead and a new object parsed from
  it is written as \<^verbatim>\<open>autopart --type=plain\<close>.
\<close>

theorem nolvm_becomes_type_plain:
  assumes "derives V F17"
  shows "(parse V h s args = (None, s') \<longrightarrow> lvm s' \<and> F16_str s' = F12_str s')
       \<and> type (snd (parse V h s [''--nolvm''])) = Some AUTOPART_TYPE_PLAIN
       \<and> lvm (snd (parse V h s [''--nolvm'']))
       \<and> str V (snd (parse V h init [''--nolvm''])) = ''autopart --type=plain'' @ [nl]"
proof -
  have nf: "V \<noteq> FC3" using assms by (rule derives_F17_not_FC3)
  have a: "parse V h s args = (None, s') \<longrightarrow> lvm s' \<and> F16_str s' = F12_str s'"
  proof
    assume p: "parse V h s args = (None, s')"
    then obtain ns where "parse_args (getParser V) (typeMap V) args = Inr ns"
      using parse_failure [OF nf, of args _ h s] by (cases "parse_args (getParser V) (typeMap V) args") auto
    from parse_state [OF nf this, of h s] p assms have "lvm s'" by auto
    then show "lvm s' \<and> F16_str s' = F12_str s'" by (simp add: F16_str_def Let_def)
  qed
  have pa: "parse_args (getParser V) (typeMap V) [''--nolvm'']
           = Inr ((defaults (getParser V))(D_type \<mapsto> VType AUTOPART_TYPE_PLAIN))"
    by (simp add: parse_args_def parse_optional_nolvm [OF assms])
  have st: "\<And>s. snd (parse V h s [''--nolvm'']) =
      (set_to_self ((defaults (getParser V))(D_type \<mapsto> VType AUTOPART_TYPE_PLAIN)) s)\<lparr>autopart := True, lvm := True\<rparr>"
    using parse_state [OF nf pa, of h] assms by simp
  have b: "type (snd (parse V h s [''--nolvm''])) = Some AUTOPART_TYPE_PLAIN"
    "lvm (snd (parse V h s [''--nolvm'']))"
    by (simp_all add: st set_to_self_fields)
  have c: "str V (snd (parse V h init [''--nolvm''])) = ''autopart --type=plain'' @ [nl]"
    unfolding st using assms by (cases V) (simp_all add: derives_def, code_simp+)
  from a b c show ?thesis by simp
qed

theorem nolvm_becomes_type_plain_witness:
  "derives F26 F17
   \<and> parse F26 quiet init [''--nolvm''] = (None, init\<lparr>autopart := True, type := Some AUTOPART_TYPE_PLAIN\<rparr>)
   \<and> lvm (init\<lparr>autopart := True, type := Some AUTOPART_TYPE_PLAIN\<rparr>)
   \<and> F16_str (init\<lparr>autopart := True, type := Some AUTOPART_TYPE_PLAIN\<rparr>)
       = F12_str (init\<lparr>autopart := True, type := Some AUTOPART_TYPE_PLAIN\<rparr>)
   \<and> str F26 (init\<lparr>autopart := True, type := Some AUTOPART_TYPE_PLAIN\<rparr>) = ''autopart --type=plain'' @ [nl]"
proof -
  have d: "derives F26 F17" by (simp add: derives_def)
  have p: "parse F26 quiet init [''--nolvm'']
           = (None, init\<lparr>autopart := True, type := Some AUTOPART_TYPE_PLAIN\<rparr>)"
    by code_simp
  show ?thesis
    using d p nolvm_becomes_type_plain [OF d, of quiet init "[''--nolvm'']"
        "init\<lparr>autopart := True, type := Some AUTOPART_TYPE_PLAIN\<rparr>"]
    by simp
qed

subsection \<open>One line, one terminator\<close>

lemma one_lineI: "nl \<notin> set b \<Longrightarrow> one_line (''autopart'' @ b @ [nl])"
  unfolding one_line_def by blast

lemma typeAsStr_values:
  "typeAsStr V s = Some ty \<Longrightarrow> ty \<in> set [''lvm'', ''btrfs'', ''plain'', ''thinp'']"
  by (auto simp: typeAsStr_def typeMap_def split: option.splits if_splits)

lemma one_line_F9:
  assumes "autopart s" "nl \<notin> set (passphrase s)"
  shows "one_line (F9_str s)"
proof -
  let ?b = "(if encrypted s then '' --encrypted'' @
              (if passphrase s \<noteq> [] then '' --passphrase='' @ [dq] @ passphrase s @ [dq] else [])
            else [])"
  have "F9_str s = ''autopart'' @ ?b @ [nl]"
    using assms(1) by (simp add: F9_str_def KickstartCommand_str_def Let_def)
  moreover have "nl \<notin> set ?b" using assms(2) by simp
  ultimately show ?thesis using one_lineI [of ?b] by simp
qed

lemma one_line_F12:
  assumes "autopart s" "nl \<notin> set (passphrase s)" "nl \<notin> set (escrowcert s)"
  shows "one_line (F12_str s)"
proof (cases "encrypted s \<and> escrowcert s \<noteq> []")
  case True
  let ?frag = "'' --escrowcert='' @ [dq] @ escrowcert s @ [dq] @
               (if backuppassphrase s then '' --backuppassphrase'' else [])"
  have "nl \<notin> set ?frag" using assms(3) by simp
  from one_line_step [OF one_line_F9 [OF assms(1,2)] this]
  show ?thesis using True assms(1) by (cases "backuppassphrase s") (simp_all add: F12_str_def Let_def)
next
  case False
  then show ?thesis using one_line_F9 [OF assms(1,2)] assms(1) by (auto simp: F12_str_def Let_def)
qed

lemma one_line_RHEL6:
  assumes "autopart s" "nl \<notin> set (passphrase s)" "nl \<notin> set (escrowcert s)" "nl \<notin> set (cipher s)"
  shows "one_line (RHEL6_str s)"
proof -
  have "nl \<notin> set ('' --cipher='' @ [dq] @ cipher s @ [dq])" using assms(4) by simp
  from one_line_step [OF one_line_F12 [OF assms(1-3)] this]
  show ?thesis using one_line_F12 [OF assms(1-3)] assms(1) by (simp add: RHEL6_str_def Let_def)
qed

lemma one_line_F16:
  assumes "autopart s" "nl \<notin> set (passphrase s)" "nl \<notin> set (escrowcert s)"
  shows "one_line (F16_str s)"
proof -
  have "nl \<notin> set '' --nolvm''" by simp
  from one_line_step [OF one_line_F12 [OF assms(1-3)] this]
  show ?thesis using one_line_F12 [OF assms(1-3)] assms(1) by (simp add: F16_str_def Let_def)
qed

lemma one_line_F17:
  assumes "autopart s" "nl \<notin> set (passphrase s)" "nl \<notin> set (escrowcert s)"
  shows "one_line (F17_str V s)"
proof (cases "typeAsStr V s")
  case None
  then show ?thesis using one_line_F16 [OF assms] assms(1) by (simp add: F17_str_def Let_def)
next
  case (Some ty)
  from typeAsStr_values [OF Some] have "nl \<notin> set ('' --type='' @ ty)" by auto
  from one_line_step [OF one_line_F16 [OF assms] this]
  show ?thesis using Some one_line_F16 [OF assms] assms(1) by (simp add: F17_str_def Let_def)
qed

lemma one_line_F18:
  assumes "autopart s" "nl \<notin> set (passphrase s)" "nl \<notin> set (escrowcert s)" "nl \<notin> set (cipher s)"
  shows "one_line (F18_str V s)"
proof -
  have "nl \<notin> set ('' --cipher='' @ [dq] @ cipher s @ [dq])" using assms(4) by simp
  from one_line_step [OF one_line_F17 [OF assms(1-3)] this]
  show ?thesis using one_line_F17 [OF assms(1-3)] assms(1) by (simp add: F18_str_def Let_def)
qed

lemma one_line_F21:
  assumes "autopart s" "nl \<notin> set (passphrase s)" "nl \<notin> set (escrowcert s)" "nl \<notin> set (cipher s)"
    "nl \<notin> set (fstype s)"
  shows "one_line (F21_str V s)"
proof -
  have "nl \<notin> set ('' --fstype='' @ fstype s)" using assms(5) by simp
  from one_line_step [OF one_line_F18 [OF assms(1-4)] this]
  show ?thesis using one_line_F18 [OF assms(1-4)] assms(1) by (simp add: F21_str_def Let_def)
qed

lemma one_line_flag:
  assumes "one_line r" "nl \<notin> set frag"
  shows "one_line (if b then strip r @ frag @ [nl] else r)"
  using assms one_line_step by simp

lemma one_line_RHEL7:
  assumes "autopart s" "nl \<notin> set (passphrase s)" "nl \<notin> set (escrowcert s)" "nl \<notin> set (cipher s)"
    "nl \<notin> set (fstype s)"
  shows "one_line (RHEL7_str V s)"
  using one_line_flag [OF one_line_F21 [OF assms], of "'' --nohome''" "nohome s" V] assms(1)
  by (simp add: RHEL7_str_def Let_def)

lemma one_line_F26:
  assumes "autopart s" "nl \<notin> set (passphrase s)" "nl \<notin> set (escrowcert s)" "nl \<notin> set (cipher s)"
    "nl \<notin> set (fstype s)"
  shows "one_line (F26_str V s)"
proof -
  let ?r1 = "if nohome s then strip (F21_str V s) @ '' --nohome'' @ [nl] else F21_str V s"
  let ?r2 = "if noboot s then strip ?r1 @ '' --noboot'' @ [nl] else ?r1"
  let ?r3 = "if noswap s then strip ?r2 @ '' --noswap'' @ [nl] else ?r2"
  have 1: "one_line ?r1" by (rule one_line_flag [OF one_line_F21 [OF assms]]) simp
  have 2: "one_line ?r2" by (rule one_line_flag [OF 1]) simp
  have 3: "one_line ?r3" by (rule one_line_flag [OF 2]) simp
  have "F26_str V s = ?r3" using assms(1) by (simp add: F26_str_def Let_def)
  with 3 show ?thesis by simp
qed

text \<open>
  Claim C9. For every target version, when \<^verbatim>\<open>autopart\<close> (the present flag) is true and no
  string attribute contains a line terminator, the serialised output ends with one line
  terminator and contains no other; the same holds for the text after every step of the
  chain of \<^verbatim>\<open>__str__\<close> methods, each of which strips the terminator, appends and adds it
  again.
\<close>

theorem one_trailing_terminator:
  assumes "autopart s" and "nl \<notin> set (passphrase s)" and "nl \<notin> set (escrowcert s)"
    and "nl \<notin> set (cipher s)" and "nl \<notin> set (fstype s)"
  shows "(\<exists>body. str V s = body @ [nl] \<and> nl \<notin> set body)
       \<and> one_line (F9_str s) \<and> one_line (F12_str s) \<and> one_line (F16_str s)
       \<and> one_line (F17_str V s) \<and> one_line (F18_str V s) \<and> one_line (F21_str V s)"
proof -
  have "one_line (str V s)"
  proof (cases V)
    case FC3
    then show ?thesis using assms(1) one_lineI [of "[]"]
      by (simp add: FC3_str_def KickstartCommand_str_def)
  qed (simp_all add: one_line_F9 one_line_F12 one_line_RHEL6 one_line_F16 one_line_F17
        one_line_F18 one_line_F21 one_line_RHEL7 one_line_F26 assms)
  then obtain b where "str V s = (''autopart'' @ b) @ [nl]" "nl \<notin> set (''autopart'' @ b)"
    by (auto simp: one_line_def)
  then have "\<exists>body. str V s = body @ [nl] \<and> nl \<notin> set body" by blast
  then show ?thesis
    by (simp add: one_line_F9 one_line_F12 one_line_F16 one_line_F17 one_line_F18 one_line_F21 assms)
qed

theorem one_trailing_terminator_witness:
  "str F26 (init\<lparr>autopart := True, encrypted := True, cipher := ''aes'', fstype := ''ext4'', noswap := True\<rparr>)
     = (''autopart --encrypted --cipher='' @ [dq] @ ''aes'' @ [dq] @ '' --fstype=ext4 --noswap'') @ [nl]
   \<and> (\<exists>body. str F26 (init\<lparr>autopart := True, encrypted := True, cipher := ''aes'', fstype := ''ext4'', noswap := True\<rparr>)
          = body @ [nl] \<and> nl \<notin> set body)"
proof -
  let ?s = "init\<lparr>autopart := True, encrypted := True, cipher := ''aes'', fstype := ''ext4'', noswap := True\<rparr>"
  have a: "str F26 ?s = (''autopart --encrypted --cipher='' @ [dq] @ ''aes'' @ [dq] @ '' --fstype=ext4 --noswap'') @ [nl]"
    by code_simp
  have "autopart ?s" "nl \<notin> set (passphrase ?s)" "nl \<notin> set (escrowcert ?s)"
    "nl \<notin> set (cipher ?s)" "nl \<notin> set (fstype ?s)"
    by (simp_all add: init_def)
  from one_trailing_terminator [OF this, of F26] a show ?thesis by blast
qed

subsection \<open>The filesystem type btrfs\<close>

lemma derives_F21_F17: "derives V F21 \<Longrightarrow> derives V F17"
  by (cases V) (simp_all add: derives_def)

lemma F21_options:
  "derives V F21 \<Longrightarrow> map_of (getParser V) ''--fstype'' = Some (Store, D_fstype)"
  by (cases V) (simp_all add: derives_def parser_defs)

lemma parse_optional_fstype:
  assumes "derives V F21"
  shows "parse_optional (getParser V) (''--fstype='' @ v) = Inr (Opt (Some (Store, D_fstype)) ''--fstype'' (Some v))"
  using parse_optional_explicit [of "getParser V" "''--fstype''" "(Store, D_fstype)" v]
    F21_options [OF assms] map_of_no_eq [OF no_eq_in_options, of V "''--fstype''" v]
  by simp

lemma consume_extras_grow:
  "consume tm ts ns ex = Inr (ns', ex') \<Longrightarrow> ex \<noteq> [] \<Longrightarrow> ex' \<noteq> []"
  by (induction tm ts ns ex rule: consume.induct)
     (auto split: if_splits sum.splits list.splits tok.splits prod.splits)

lemma consume_Sep:
  "consume tm ts ns ex = Inr (ns', ex') \<Longrightarrow> (x, Sep) \<in> set ts \<Longrightarrow> ex' \<noteq> []"
  by (induction tm ts ns ex rule: consume.induct)
     (auto split: if_splits sum.splits list.splits tok.splits prod.splits dest: consume_extras_grow)

lemma classify_snoc:
  "classify op (pre @ [a]) = Inr ts \<Longrightarrow> a \<noteq> ''--'' \<Longrightarrow>
   (\<exists>x. (x, Sep) \<in> set ts) \<or> (\<exists>ts' t. ts = ts' @ [(a, t)] \<and> parse_optional op a = Inr t)"
proof (induction pre arbitrary: ts)
  case Nil
  then show ?case by (auto split: sum.splits)
next
  case (Cons p pre)
  show ?case
  proof (cases "p = ''--''")
    case True
    with Cons.prems show ?thesis by auto
  next
    case False
    with Cons.prems obtain t ts0 where "classify op (pre @ [a]) = Inr ts0" "ts = (p, t) # ts0"
      by (auto split: sum.splits)
    with Cons.IH [of ts0] Cons.prems(2) show ?thesis by auto
  qed
qed

lemma consume_last_store:
  "consume tm (ts @ [(a, Opt (Some (Store, d)) os (Some v))]) ns ex = Inr (ns', ex') \<Longrightarrow>
   ns' d = Some (VStr v)"
  by (induction tm ts ns ex rule: consume.induct)
     (auto simp: append_eq_Cons_conv split: if_splits sum.splits list.splits tok.splits prod.splits)

lemma last_fstype_btrfs:
  assumes "derives V F21"
    and "parse_args (getParser V) (typeMap V) (pre @ [''--fstype=btrfs'']) = Inr ns"
  shows "ns D_fstype = Some (VStr ''btrfs'')"
proof -
  from assms(2) obtain ts where c: "classify (getParser V) (pre @ [''--fstype=btrfs'']) = Inr ts"
    and k: "consume (typeMap V) ts (defaults (getParser V)) [] = Inr (ns, [])"
    by (auto simp: parse_args_def split: sum.splits prod.splits if_splits)
  note po = parse_optional_fstype [OF assms(1), of "''btrfs''", simplified]
  from classify_snoc [OF c] consume_Sep [OF k] po
  obtain ts' where "ts = ts' @ [(''--fstype=btrfs'', Opt (Some (Store, D_fstype)) ''--fstype'' (Some ''btrfs''))]"
    by auto
  with consume_last_store k show ?thesis by blast
qed

lemma fstype_btrfs_fails:
  assumes "derives V F21" and "parse_args (getParser V) (typeMap V) args = Inr ns"
    and "fstype (set_to_self ns s) = ''btrfs''"
  shows "fst (parse V h s args) =
           Some (if conflicting_command h = [] then FstypeBtrfsNotValid
                 else ConflictingCommand (conflicting_command h))"
  using assms by (cases V) (simp_all add: derives_def parse_defs)

text \<open>
  Claim C6, as amended. Under F21 and later, whenever the option parser accepts the
  arguments of a directive and they leave the \<^verbatim>\<open>fstype\<close> attribute equal to \<^verbatim>\<open>btrfs\<close> (in
  particular whenever the last argument is \<^verbatim>\<open>--fstype=btrfs\<close>, whatever comes before it: a
  scheme selected by \<^verbatim>\<open>--type\<close> or \<^verbatim>\<open>--nolvm\<close> or none, \<^verbatim>\<open>--encrypted\<close>, any other option),
  \<^verbatim>\<open>parse\<close> fails, for every handler and every earlier state of the object: with the error
  "autopart --fstype=btrfs is not valid fstype, use --type=btrfs instead", an invalid
  option combination, when no partition, raid, volgroup or logvol command has been seen,
  and with the conflict error of \<^verbatim>\<open>F20_AutoPart.parse\<close>, which runs first, otherwise.
\<close>

theorem fstype_btrfs_never_parses:
  assumes "derives V F21" and "parse_args (getParser V) (typeMap V) args = Inr ns"
    and "fstype (set_to_self ns s) = ''btrfs'' \<or> (\<exists>pre. args = pre @ [''--fstype=btrfs''])"
  shows "fst (parse V h s args) =
           Some (if conflicting_command h = [] then FstypeBtrfsNotValid
                 else ConflictingCommand (conflicting_command h))
         \<and> kind FstypeBtrfsNotValid = InvalidOptionCombination
         \<and> kind (ConflictingCommand (conflicting_command h)) = ConflictingDirectives"
proof -
  have "fstype (set_to_self ns s) = ''btrfs''"
  proof (rule disjE [OF assms(3)])
    assume "\<exists>pre. args = pre @ [''--fstype=btrfs'']"
    then obtain pre where "args = pre @ [''--fstype=btrfs'']" ..
    with last_fstype_btrfs [OF assms(1)] assms(2) have "ns D_fstype = Some (VStr ''btrfs'')" by blast
    then show ?thesis by (simp add: set_to_self_fields)
  qed
  from fstype_btrfs_fails [OF assms(1,2) this] show ?thesis by simp
qed

theorem fstype_btrfs_never_parses_witness:
  "derives F26 F21
   \<and> parse_args (getParser F26) (typeMap F26) [''--encrypted'', ''--type=btrfs'', ''--fstype=btrfs'']
       = Inr (projr (parse_args (getParser F26) (typeMap F26) [''--encrypted'', ''--type=btrfs'', ''--fstype=btrfs'']))
   \<and> (\<exists>pre. [''--encrypted'', ''--type=btrfs'', ''--fstype=btrfs''] = pre @ [''--fstype=btrfs''])
   \<and> fst (parse F26 quiet init [''--encrypted'', ''--type=btrfs'', ''--fstype=btrfs'']) = Some FstypeBtrfsNotValid
   \<and> fst (parse F26 (quiet\<lparr>raid_seen := True\<rparr>) init [''--encrypted'', ''--type=btrfs'', ''--fstype=btrfs''])
       = Some (ConflictingCommand ''raid'')"
proof -
  let ?args = "[''--encrypted'', ''--type=btrfs'', ''--fstype=btrfs'']"
  have d: "derives F26 F21" by (simp add: derives_def)
  have "case parse_args (getParser F26) (typeMap F26) ?args of Inl e \<Rightarrow> False | Inr ns \<Rightarrow> True"
    by code_simp
  then have a: "parse_args (getParser F26) (typeMap F26) ?args
                = Inr (projr (parse_args (getParser F26) (typeMap F26) ?args))"
    by (cases "parse_args (getParser F26) (typeMap F26) ?args") simp_all
  have e: "\<exists>pre. ?args = pre @ [''--fstype=btrfs'']"
    by (rule exI [of _ "[''--encrypted'', ''--type=btrfs'']"]) simp
  have c1: "conflicting_command quiet = []" by code_simp
  have c2: "conflicting_command (quiet\<lparr>raid_seen := True\<rparr>) = ''raid''" by code_simp
  from fstype_btrfs_never_parses [OF d a disjI2 [OF e], where s = init and h = quiet]
    fstype_btrfs_never_parses [OF d a disjI2 [OF e], where s = init and h = "quiet\<lparr>raid_seen := True\<rparr>"]
    d a e c1 c2
  show ?thesis by simp
qed

text \<open>
  Claim C6 as stated fails: under F21 the arguments \<^verbatim>\<open>--fstype=btrfs --fstype=ext4\<close> include
  \<^verbatim>\<open>--fstype=btrfs\<close> and parse without error, the later value replacing the earlier one.
\<close>

theorem fstype_btrfs_counterexample:
  "parse F21 quiet init [''--fstype=btrfs'', ''--fstype=ext4'']
     = (None, init\<lparr>autopart := True, fstype := ''ext4''\<rparr>)"
  by code_simp

subsection \<open>Options a version does not know\<close>

lemma get_option_tuples_long:
  assumes "take 2 arg = ''--''" "CHR ''='' \<notin> set arg"
  shows "get_option_tuples op arg = map (\<lambda>(os, ad). (ad, os, None)) (filter (\<lambda>(os, ad). startswith os arg) op)"
proof -
  from assms(1) obtain r where "arg = CHR ''-'' # CHR ''-'' # r"
    by (cases arg; cases "tl arg") (auto split: if_splits)
  with assms(2) show ?thesis by (simp add: get_option_tuples_def)
qed

lemma get_option_tuples_long_eq:
  assumes "take 2 os = ''--''" "CHR ''='' \<notin> set os"
  shows "get_option_tuples op (os @ CHR ''='' # v)
         = map (\<lambda>(x, ad). (ad, x, Some v)) (filter (\<lambda>(x, ad). startswith x os) op)"
proof -
  from assms(1) obtain r where "os = CHR ''-'' # CHR ''-'' # r"
    by (cases os; cases "tl os") (auto split: if_splits)
  with assms(2) show ?thesis
    using split_eq_append [OF assms(2), of v] by (simp add: get_option_tuples_def)
qed

lemma unknown_argument:
  assumes "map_of op arg = None" "take 2 arg = ''--''"
    and "CHR ''='' \<in> set arg \<longrightarrow> map_of op (fst (split_eq arg)) = None"
    and "get_option_tuples op arg = []"
  shows "parse_args op tm [arg] = Inl (UnrecognizedArguments [arg])"
proof -
  from assms(2) have ne: "arg \<noteq> []" "hd arg = CHR ''-''"
    by (cases arg; auto split: if_splits)+
  have "parse_optional op arg = Inr Pos \<or> parse_optional op arg = Inr (Opt None arg None)"
    using assms ne by (auto simp: parse_optional_def)
  then show ?thesis
    by (cases "arg = ''--''") (auto simp: parse_args_def)
qed

lemma unknown_facts:
  assumes "os \<in> set all_option_strings" "os \<notin> set (option_strings V)"
  shows "map_of (getParser V) os = None \<and> filter (\<lambda>(x, ad). startswith x os) (getParser V) = []
         \<and> take 2 os = ''--'' \<and> CHR ''='' \<notin> set os"
  using assms
  by (cases V; simp add: all_option_strings_def option_strings_def parser_defs; elim disjE;
      simp add: startswith_def)

lemma unknown_option_rejected:
  assumes "V \<noteq> FC3" "os \<in> set all_option_strings" "os \<notin> set (option_strings V)"
  shows "fst (parse V h s [os]) = Some (UnrecognizedArguments [os])"
    and "fst (parse V h s [os @ CHR ''='' # v]) = Some (UnrecognizedArguments [os @ CHR ''='' # v])"
proof -
  note f = unknown_facts [OF assms(2,3)]
  have "parse_args (getParser V) (typeMap V) [os] = Inl (UnrecognizedArguments [os])"
    using f by (intro unknown_argument) (simp_all add: get_option_tuples_long)
  from parse_failure [OF assms(1) this] show "fst (parse V h s [os]) = Some (UnrecognizedArguments [os])"
    by simp
  let ?arg = "os @ CHR ''='' # v"
  have t2: "take 2 ?arg = ''--''" using f by (cases os; cases "tl os") (auto split: if_splits)
  have "parse_args (getParser V) (typeMap V) [?arg] = Inl (UnrecognizedArguments [?arg])"
    using f t2 map_of_no_eq [OF no_eq_in_options, of V os v]
    by (intro unknown_argument) (simp_all add: get_option_tuples_long_eq split_eq_append)
  from parse_failure [OF assms(1) this]
  show "fst (parse V h s [?arg]) = Some (UnrecognizedArguments [?arg])" by simp
qed

subsection \<open>Options a version knows\<close>

lemma option_strings_subset:
  "derives V W \<Longrightarrow> set (option_strings W) \<subseteq> set (option_strings V)"
  by (cases V; cases W; simp add: derives_def; code_simp)

lemma option_strings_inherited:
  "derives V W \<Longrightarrow> os \<in> set (option_strings W) \<Longrightarrow> os \<in> set (option_strings V)"
  using option_strings_subset by blast

lemma option_strings_shape:
  "os \<in> set (option_strings V) \<Longrightarrow> os \<noteq> [] \<and> hd os = CHR ''-'' \<and> os \<noteq> ''--'' \<and> V \<noteq> FC3"
  by (cases V; simp add: option_strings_def parser_defs; elim disjE; simp)

lemma known_option_parse_args:
  assumes "os \<in> set (option_strings V)"
  shows "(\<exists>ns. parse_args (getParser V) tm [os] = Inr ns)
       \<or> parse_args (getParser V) tm [os] = Inl (ExpectedOneArgument os)"
proof -
  from assms obtain a d where m: "map_of (getParser V) os = Some (a, d)"
    by (cases "map_of (getParser V) os") (auto simp: option_strings_def map_of_eq_None_iff)
  note sh = option_strings_shape [OF assms]
  have po: "parse_optional (getParser V) os = Inr (Opt (Some (a, d)) os None)"
    using parse_optional_exact [OF m] sh by simp
  show ?thesis using sh
    by (cases a) (simp_all add: parse_args_def po)
qed

lemma known_option_not_unknown:
  assumes "os \<in> set (option_strings V)" "fst (parse V h s [os]) = Some e"
  shows "kind e \<noteq> UnknownOption"
proof -
  have nf: "V \<noteq> FC3" using option_strings_shape [OF assms(1)] by simp
  from known_option_parse_args [OF assms(1), of "typeMap V"] show ?thesis
  proof
    assume "\<exists>ns. parse_args (getParser V) (typeMap V) [os] = Inr ns"
    then obtain ns where "parse_args (getParser V) (typeMap V) [os] = Inr ns" ..
    from parse_error_kind [OF nf this assms(2)] show ?thesis by auto
  next
    assume "parse_args (getParser V) (typeMap V) [os] = Inl (ExpectedOneArgument os)"
    from parse_failure [OF nf this, of h s] assms(2) show ?thesis by auto
  qed
qed

lemma known_option_example:
  "os \<in> set (option_strings V) \<Longrightarrow>
   fst (parse V quiet init [os]) = None \<or> fst (parse V quiet init [os @ ''=plain'']) = None"
  by (cases V; simp only: option_strings_def getParser.simps parser_defs Let_def list.map filter.simps
        append.simps fst_conv list.set insert_iff empty_iff list.inject char.inject simp_thms if_True if_False;
      elim disjE; hypsubst; code_simp)

text \<open>
  Claim C3, as amended. FC3 takes no arguments at all: any argument fails there with
  "does not take any arguments" (an unexpected argument). Under every other version an
  option that some class registers but the class of the version does not know is rejected
  as an unknown option, written alone or with a value. An option registered by a class is
  known to every class derived from it: there it is never rejected as unknown, and a new
  object parses it, alone or with the value \<^verbatim>\<open>plain\<close>.
\<close>

theorem version_gating:
  "(args \<noteq> [] \<longrightarrow> fst (parse FC3 h s args) = Some NoArguments \<and> kind NoArguments = UnexpectedArgument)
   \<and> (V \<noteq> FC3 \<and> os \<in> set all_option_strings \<and> os \<notin> set (option_strings V) \<longrightarrow>
         (\<exists>e. fst (parse V h s [os]) = Some e \<and> kind e = UnknownOption)
       \<and> (\<exists>e. fst (parse V h s [os @ ''='' @ v]) = Some e \<and> kind e = UnknownOption))
   \<and> (derives V W \<and> os \<in> set (option_strings W) \<longrightarrow>
         os \<in> set (option_strings V)
       \<and> (\<forall>e. fst (parse V h s [os]) = Some e \<longrightarrow> kind e \<noteq> UnknownOption)
       \<and> (fst (parse V quiet init [os]) = None \<or> fst (parse V quiet init [os @ ''=plain'']) = None))"
proof (intro conjI impI)
  assume "args \<noteq> []"
  then show "fst (parse FC3 h s args) = Some NoArguments" by (simp add: FC3_parse_def)
next
  show "kind NoArguments = UnexpectedArgument" by simp
next
  assume a: "V \<noteq> FC3 \<and> os \<in> set all_option_strings \<and> os \<notin> set (option_strings V)"
  then show "\<exists>e. fst (parse V h s [os]) = Some e \<and> kind e = UnknownOption"
    using unknown_option_rejected(1) [of V os h s] by simp
  from a show "\<exists>e. fst (parse V h s [os @ ''='' @ v]) = Some e \<and> kind e = UnknownOption"
    using unknown_option_rejected(2) [of V os h s v] by simp
next
  assume a: "derives V W \<and> os \<in> set (option_strings W)"
  then show k: "os \<in> set (option_strings V)" using option_strings_inherited by blast
  show "\<forall>e. fst (parse V h s [os]) = Some e \<longrightarrow> kind e \<noteq> UnknownOption"
    using known_option_not_unknown [OF k] by blast
  show "fst (parse V quiet init [os]) = None \<or> fst (parse V quiet init [os @ ''=plain'']) = None"
    using known_option_example [OF k] .
qed

theorem version_gating_witness:
  "fst (parse FC3 quiet init [''--encrypted'']) = Some NoArguments
   \<and> F12 \<noteq> FC3 \<and> ''--nolvm'' \<in> set all_option_strings \<and> ''--nolvm'' \<notin> set (option_strings F12)
   \<and> (\<exists>e. fst (parse F12 quiet init [''--nolvm'']) = Some e \<and> kind e = UnknownOption)
   \<and> derives F26 F16 \<and> ''--nolvm'' \<in> set (option_strings F16)
   \<and> ''--nolvm'' \<in> set (option_strings F26)
   \<and> fst (parse F26 quiet init [''--nolvm'']) = None"
proof -
  have a: "[''--encrypted''] \<noteq> []" by simp
  have b: "F12 \<noteq> FC3 \<and> ''--nolvm'' \<in> set all_option_strings \<and> ''--nolvm'' \<notin> set (option_strings F12)"
    by code_simp
  have c: "derives F26 F16 \<and> ''--nolvm'' \<in> set (option_strings F16)"
    by code_simp
  have d: "fst (parse F26 quiet init [''--nolvm'']) = None" by code_simp
  show ?thesis
    using a b c d
      version_gating [of "[''--encrypted'']" quiet init F12 "''--nolvm''" "[]" F12]
      version_gating [of "[''--encrypted'']" quiet init F26 "''--nolvm''" "[]" F16]
    by blast
qed

text \<open>
  Claim C3 as stated fails: under FC3 \<^verbatim>\<open>autopart --encrypted\<close> fails with "does not take
  any arguments", which is not the error of an unknown option.
\<close>

theorem unknown_option_counterexample:
  "fst (parse FC3 quiet init [''--encrypted'']) = Some NoArguments
   \<and> kind NoArguments \<noteq> UnknownOption"
  by code_simp

subsection \<open>The round trip: writing\<close>

lemma rstrip_tidy:
  assumes "b = [] \<or> \<not> isspace (last b)"
  shows "rev (dropWhile isspace (rev b)) = b"
proof (cases b rule: rev_cases)
  case Nil then show ?thesis by simp
next
  case (snoc ys y) with assms show ?thesis by simp
qed

lemma body_tidy:
  assumes "\<forall>i\<in>set its. guard i \<longrightarrow> written i \<noteq> [] \<and> \<not> isspace (last (written i))"
  shows "body_of its = [] \<or> \<not> isspace (last (body_of its))"
  using assms
proof (induction its rule: rev_induct)
  case Nil then show ?case by (simp add: body_of_def)
next
  case (snoc i its)
  then have ih: "body_of its = [] \<or> \<not> isspace (last (body_of its))" by simp
  show ?case
  proof (cases "guard i")
    case True
    with snoc.prems have "written i \<noteq> []" "\<not> isspace (last (written i))" by auto
    with True show ?thesis by (simp add: body_of_def)
  next
    case False
    with ih show ?thesis by (simp add: body_of_def)
  qed
qed

lemma text_snoc:
  assumes "\<forall>i\<in>set its. guard i \<longrightarrow> written i \<noteq> [] \<and> \<not> isspace (last (written i))"
  shows "(if guard i then strip (text_of its) @ CHR '' '' # written i @ [nl] else text_of its)
         = text_of (its @ [i])"
proof -
  have "strip (text_of its) = ''autopart'' @ body_of its"
    unfolding text_of_def body_of_def [symmetric] strip_autopart
    using rstrip_tidy [OF body_tidy [OF assms]] by simp
  then show ?thesis by (simp add: text_of_def body_of_def)
qed

subsection \<open>The round trip: reading\<close>

lemma bare_run:
  "bare t \<Longrightarrow> split_aux Unquoted (Some x) (t @ rest) = split_aux Unquoted (Some (x @ t)) rest"
  by (induction t arbitrary: x) (simp_all add: bare_def)

lemma bare_start:
  "bare t \<Longrightarrow> t \<noteq> [] \<Longrightarrow> split_aux Unquoted None (t @ rest) = split_aux Unquoted (Some t) rest"
  using bare_run [of "tl t" "[hd t]" rest] by (cases t) (simp_all add: bare_def)

lemma quoted_run:
  "quotable v \<Longrightarrow> split_aux DoubleQuoted (Some x) (v @ dq # rest) = split_aux Unquoted (Some (x @ v)) rest"
  by (induction v arbitrary: x) (simp_all add: quotable_def)

lemma read_items:
  assumes "\<forall>i\<in>set its. guard i \<longrightarrow>
             (\<forall>rest. split_aux Unquoted None (written i @ rest) = split_aux Unquoted (Some (token i)) rest)"
  shows "split_aux Unquoted (Some x) (body_of its @ [nl]) = x # tokens_of its"
  using assms
proof (induction its arbitrary: x)
  case Nil
  show ?case by (simp add: body_of_def tokens_of_def isspace_def)
next
  case (Cons i its)
  then have ih: "\<And>x. split_aux Unquoted (Some x) (body_of its @ [nl]) = x # tokens_of its" by simp
  show ?case
  proof (cases "guard i")
    case True
    with Cons.prems have
      "split_aux Unquoted None (written i @ body_of its @ [nl])
       = split_aux Unquoted (Some (token i)) (body_of its @ [nl])" by simp
    with True ih [of "token i"] show ?thesis
      by (simp add: body_of_def tokens_of_def isspace_def)
  next
    case False
    with ih [of x] show ?thesis by (simp add: body_of_def tokens_of_def)
  qed
qed

lemma read_text:
  assumes "\<forall>i\<in>set its. guard i \<longrightarrow>
             (\<forall>rest. split_aux Unquoted None (written i @ rest) = split_aux Unquoted (Some (token i)) rest)"
  shows "read_line (text_of its) = ''autopart'' # tokens_of its"
proof -
  have "bare ''autopart''" by (simp add: bare_def isspace_def)
  from bare_start [OF this, of "body_of its @ [nl]"] read_items [OF assms, of "''autopart''"]
  show ?thesis by (simp add: read_line_def text_of_def body_of_def)
qed

subsection \<open>Parsing complete options\<close>

lemma classify_complete:
  assumes "\<forall>a\<in>set args. complete op tm a \<noteq> None"
  shows "classify op args = Inr (map (\<lambda>a. (a, projr (parse_optional op a))) args)"
  using assms
proof (induction args)
  case Nil show ?case by simp
next
  case (Cons a args)
  from Cons.prems have "a \<noteq> ''--''" and "\<exists>t. parse_optional op a = Inr t"
    by (auto simp: complete_def split: if_splits sum.splits)
  with Cons show ?case by auto
qed

lemma consume_complete:
  assumes "\<forall>a\<in>set args. complete op tm a \<noteq> None"
  shows "consume tm (map (\<lambda>a. (a, projr (parse_optional op a))) args) ns extras
         = Inr (fold (\<lambda>a ns. ns(fst (the (complete op tm a)) \<mapsto> snd (the (complete op tm a)))) args ns, extras)"
  using assms
proof (induction args arbitrary: ns)
  case Nil show ?case by simp
next
  case (Cons a args)
  from Cons.prems obtain d v where c: "complete op tm a = Some (d, v)" by auto
  then obtain ac os e where p: "parse_optional op a = Inr (Opt (Some (ac, d)) os e)"
    by (auto simp: complete_def split: if_splits sum.splits tok.splits option.splits action.splits)
  from c p have "(e = None \<and> nargs ac = 0 \<and> take_action tm ac d [] ns = Inr (ns(d \<mapsto> v)))
      \<or> (\<exists>x. e = Some x \<and> nargs ac = 1 \<and> take_action tm ac d x ns = Inr (ns(d \<mapsto> v)))"
    by (cases ac; cases e) (auto simp: complete_def split: if_splits sum.splits)
  with p have step: "\<And>ts. consume tm ((a, projr (parse_optional op a)) # ts) ns extras
                      = consume tm ts (ns(d \<mapsto> v)) extras"
    by auto
  have ih: "consume tm (map (\<lambda>a. (a, projr (parse_optional op a))) args) (ns(d \<mapsto> v)) extras
         = Inr (fold (\<lambda>a ns. ns(fst (the (complete op tm a)) \<mapsto> snd (the (complete op tm a)))) args (ns(d \<mapsto> v)), extras)"
    by (rule Cons.IH) (use Cons.prems in simp)
  show ?case unfolding list.map step ih fold_Cons comp_def c by simp
qed

lemma fold_put:
  "fold (\<lambda>a ns. ns(fst (the (complete op tm a)) \<mapsto> snd (the (complete op tm a)))) (tokens_of its) ns
   = fold put its ns"
  if "\<forall>i\<in>set its. guard i \<longrightarrow> complete op tm (token i) = Some (target i, stored i)"
  using that by (induction its arbitrary: ns) (auto simp: tokens_of_def put_def)

lemma parse_tokens:
  assumes "\<forall>i\<in>set its. guard i \<longrightarrow> complete op tm (token i) = Some (target i, stored i)"
  shows "parse_args op tm (tokens_of its) = Inr (fold put its (defaults op))"
proof -
  have "\<forall>a\<in>set (tokens_of its). complete op tm a \<noteq> None"
    using assms by (auto simp: tokens_of_def split: if_splits)
  from classify_complete [OF this] consume_complete [OF this] fold_put [OF assms]
  show ?thesis by (simp add: parse_args_def)
qed

lemma complete_flag:
  assumes "map_of op os = Some (a, d)" "os \<noteq> []" "hd os = CHR ''-''" "os \<noteq> ''--''"
  shows "a = StoreTrue \<Longrightarrow> complete op tm os = Some (d, VBool True)"
    and "a = StoreFalse \<Longrightarrow> complete op tm os = Some (d, VBool False)"
    and "a = StoreConst c \<Longrightarrow> complete op tm os = Some (d, VType c)"
  using assms parse_optional_exact [OF assms(1-3)] by (simp_all add: complete_def)

lemma complete_value:
  assumes "map_of op os = Some (a, d)" "os \<noteq> []" "hd os = CHR ''-''" "CHR ''='' \<notin> set os"
    and "\<forall>x\<in>fst ` set op. CHR ''='' \<notin> set x"
  shows "a = Store \<Longrightarrow> complete op tm (os @ CHR ''='' # v) = Some (d, VStr v)"
    and "a = StoreTypeCb \<Longrightarrow> map_of tm (lower v) = Some t \<Longrightarrow> complete op tm (os @ CHR ''='' # v) = Some (d, VType t)"
proof -
  have "CHR ''='' \<in> set (os @ CHR ''='' # v)" by simp
  moreover have "CHR ''='' \<notin> set ''--''" by simp
  ultimately have ne: "os @ CHR ''='' # v \<noteq> ''--''" by metis
  note po = parse_optional_explicit [OF assms(1-4) map_of_no_eq [OF assms(5)], of v]
  show "a = Store \<Longrightarrow> complete op tm (os @ CHR ''='' # v) = Some (d, VStr v)"
    using ne po by (simp add: complete_def)
  show "a = StoreTypeCb \<Longrightarrow> map_of tm (lower v) = Some t \<Longrightarrow> complete op tm (os @ CHR ''='' # v) = Some (d, VType t)"
    using ne po by (simp add: complete_def type_cb_def)
qed

subsection \<open>What the namespace of a successful parse holds\<close>

lemma parse_optional_from_parser:
  assumes "parse_optional op arg = Inr t"
  shows "from_parser op t"
proof -
  have m: "\<And>k ad. map_of op k = Some ad \<Longrightarrow> ad \<in> snd ` set op"
    by (force dest: map_of_SomeD)
  have g: "\<And>ad os e. (ad, os, e) \<in> set (get_option_tuples op arg) \<Longrightarrow> ad \<in> snd ` set op"
    by (force simp: get_option_tuples_def Let_def split: list.splits if_splits)
  have h: "\<And>ad os e. length (get_option_tuples op arg) = Suc 0 \<Longrightarrow>
             hd (get_option_tuples op arg) = (ad, os, e) \<Longrightarrow> ad \<in> snd ` set op"
    using g by (cases "get_option_tuples op arg") auto
  from assms show ?thesis
    unfolding parse_optional_def Let_def from_parser_def
    by (auto split: if_splits option.splits prod.splits dest: m h)
qed

lemma defaults_inv_aux:
  "set xs \<subseteq> set op \<Longrightarrow> ns_inv op tm ns \<Longrightarrow>
   ns_inv op tm (fold (\<lambda>(os, a, d) ns. if ns d = None then ns(d \<mapsto> default a) else ns) xs ns)"
proof (induction xs arbitrary: ns)
  case Nil then show ?case by simp
next
  case (Cons x xs)
  obtain os a d where x: "x = (os, a, d)" by (cases x)
  with Cons.prems have "d \<in> (snd \<circ> snd) ` set op" by force
  moreover have "\<And>t. default a \<noteq> VType t" by (cases a) simp_all
  ultimately have "ns_inv op tm (if ns d = None then ns(d \<mapsto> default a) else ns)"
    using Cons.prems(2) by (auto simp: ns_inv_def)
  with Cons x show ?case by simp
qed

lemma defaults_inv: "ns_inv op tm (defaults op)"
  unfolding defaults_def by (rule defaults_inv_aux) (simp_all add: ns_inv_def)

lemma classify_from_parser:
  "classify op args = Inr ts \<Longrightarrow> \<forall>(a, t)\<in>set ts. from_parser op t"
proof (induction args arbitrary: ts)
  case Nil then show ?case by simp
next
  case (Cons a args)
  show ?case
  proof (cases "a = ''--''")
    case True
    with Cons.prems show ?thesis by (auto simp: from_parser_def)
  next
    case False
    with Cons.prems obtain t ts' where "parse_optional op a = Inr t" "classify op args = Inr ts'"
      "ts = (a, t) # ts'"
      by (auto split: sum.splits)
    with Cons.IH [of ts'] parse_optional_from_parser [of op a t] show ?thesis by simp
  qed
qed

lemma ns_inv_upd:
  "ns_inv op tm ns \<Longrightarrow> d \<in> (snd \<circ> snd) ` set op \<Longrightarrow> (\<forall>t. v = VType t \<longrightarrow> t \<in> snd ` set tm) \<Longrightarrow>
   ns_inv op tm (ns(d \<mapsto> v))"
  unfolding ns_inv_def by (metis fun_upd_apply option.inject)

lemma take_action_inv:
  assumes "ns_inv op tm ns" "(a, d) \<in> snd ` set op" "take_action tm a d v ns = Inr ns'"
    and "\<forall>c d. (StoreConst c, d) \<in> snd ` set op \<longrightarrow> c \<in> snd ` set tm"
  shows "ns_inv op tm ns'"
proof -
  from assms(2) have d: "d \<in> (snd \<circ> snd) ` set op" by force
  show ?thesis
  proof (cases a)
    case Store
    with assms(3) have "ns' = ns(d \<mapsto> VStr v)" by auto
    then show ?thesis using ns_inv_upd [OF assms(1) d, of "VStr v"] by simp
  next
    case StoreTypeCb
    with assms(3) obtain t where m: "map_of tm (lower v) = Some t" and n: "ns' = ns(d \<mapsto> VType t)"
      by (auto simp: type_cb_def split: option.splits)
    from m have "t \<in> snd ` set tm" by (force dest: map_of_SomeD)
    then show ?thesis using ns_inv_upd [OF assms(1) d, of "VType t"] n by simp
  next
    case StoreTrue
    with assms(3) have "ns' = ns(d \<mapsto> VBool True)" by auto
    then show ?thesis using ns_inv_upd [OF assms(1) d, of "VBool True"] by simp
  next
    case StoreFalse
    with assms(3) have "ns' = ns(d \<mapsto> VBool False)" by auto
    then show ?thesis using ns_inv_upd [OF assms(1) d, of "VBool False"] by simp
  next
    case (StoreConst c)
    with assms(2,4) have "c \<in> snd ` set tm" by blast
    moreover from StoreConst assms(3) have "ns' = ns(d \<mapsto> VType c)" by auto
    ultimately show ?thesis using ns_inv_upd [OF assms(1) d, of "VType c"] by simp
  qed
qed

lemma consume_inv:
  "\<forall>c d. (StoreConst c, d) \<in> snd ` set op \<longrightarrow> c \<in> snd ` set tm \<Longrightarrow>
   \<forall>(a, t)\<in>set ts. from_parser op t \<Longrightarrow> ns_inv op tm ns \<Longrightarrow>
   consume tm ts ns extras = Inr (ns', extras') \<Longrightarrow> ns_inv op tm ns'"
proof (induction tm ts ns extras rule: consume.induct)
  case (5 tm arg a d os e ts ns extras)
  from "5.prems"(2) have ad: "(a, d) \<in> snd ` set op" by (simp add: from_parser_def)
  from "5.prems"(4) obtain ns1 where t: "take_action tm a d e ns = Inr ns1" and n: "nargs a = 1"
    and c: "consume tm ts ns1 extras = Inr (ns', extras')"
    by (auto split: if_splits sum.splits)
  from take_action_inv [OF "5.prems"(3) ad t "5.prems"(1)] have "ns_inv op tm ns1" .
  with "5.IH" [OF n t "5.prems"(1)] "5.prems"(2) c show ?case by simp
next
  case (6 tm arg a d os ts ns extras)
  from "6.prems"(2) have ad: "(a, d) \<in> snd ` set op" by (simp add: from_parser_def)
  show ?case
  proof (cases "nargs a = 0")
    case True
    with "6.prems"(4) obtain ns1 where t: "take_action tm a d [] ns = Inr ns1"
      and c: "consume tm ts ns1 extras = Inr (ns', extras')"
      by (auto split: sum.splits)
    from take_action_inv [OF "6.prems"(3) ad t "6.prems"(1)] have "ns_inv op tm ns1" .
    with "6.IH"(1) [OF True t "6.prems"(1)] "6.prems"(2) c show ?thesis by simp
  next
    case False
    with "6.prems"(4) obtain v ts' ns1 where ts: "ts = (v, Pos) # ts'"
      and t: "take_action tm a d v ns = Inr ns1"
      and c: "consume tm ts' ns1 extras = Inr (ns', extras')"
      by (auto split: sum.splits list.splits tok.splits)
    from take_action_inv [OF "6.prems"(3) ad t "6.prems"(1)] have "ns_inv op tm ns1" .
    with "6.IH"(2) [OF False ts _ _ t "6.prems"(1)] "6.prems"(2) ts c show ?thesis by simp
  qed
qed auto

lemma parse_args_inv:
  assumes "\<forall>c d. (StoreConst c, d) \<in> snd ` set op \<longrightarrow> c \<in> snd ` set tm"
    and "parse_args op tm args = Inr ns"
  shows "ns_inv op tm ns"
proof -
  from assms(2) obtain ts extras where c: "classify op args = Inr ts"
    and k: "consume tm ts (defaults op) [] = Inr (ns, extras)"
    by (auto simp: parse_args_def split: sum.splits prod.splits if_splits)
  from consume_inv [OF assms(1) classify_from_parser [OF c] defaults_inv k] show ?thesis .
qed

lemmas item_defs = F9_items_def F12_items_def cipher_item_def F16_item_def F17_item_def F21_item_def
  F17_items_def F21_items_def flag_def quoted_def plainval_def

subsection \<open>What str writes\<close>

lemma text_body: "text_of its = ''autopart'' @ body_of its @ [nl]"
  by (simp add: text_of_def body_of_def)

lemma strip_text: "tidy its \<Longrightarrow> strip (text_of its) = ''autopart'' @ body_of its"
  unfolding text_body strip_autopart tidy_def
  using rstrip_tidy [OF body_tidy, of its] by simp

lemma body_append [simp]: "body_of (xs @ ys) = body_of xs @ body_of ys"
  by (simp add: body_of_def)

lemma tidy_append [simp]: "tidy (xs @ ys) = (tidy xs \<and> tidy ys)"
  by (auto simp: tidy_def)

lemma tidy_Cons2 [simp]: "tidy (i # j # its) = (tidy [i] \<and> tidy (j # its))"
  by (auto simp: tidy_def)

lemma isspace_dq [simp]: "\<not> isspace dq"
  by (simp add: isspace_def)

lemma tidy_F9 [simp]: "tidy (F9_items s)" and tidy_F12 [simp]: "tidy (F12_items s)"
  and tidy_cipher [simp]: "tidy [cipher_item s]" and tidy_F16 [simp]: "tidy [F16_item s]"
  by (simp_all add: tidy_def item_defs isspace_def)

lemma tidy_F17 [simp]: "tidy [F17_item V s]"
proof (cases "typeAsStr V s")
  case None then show ?thesis by (simp add: tidy_def item_defs)
next
  case (Some ty)
  from typeAsStr_values [OF Some] show ?thesis using Some
    by (auto simp: tidy_def item_defs isspace_def)
qed

lemma bare_last: "bare v \<Longrightarrow> v \<noteq> [] \<Longrightarrow> \<not> isspace (last v)"
  by (induction v) (auto simp: bare_def)

lemma tidy_F21: "bare (fstype s) \<Longrightarrow> tidy [F21_item s]"
  using bare_last [of "fstype s"] by (simp add: tidy_def item_defs)

lemma tidy_flag: "name \<noteq> [] \<Longrightarrow> \<not> isspace (last name) \<Longrightarrow> tidy [flag g name d v]"
  by (simp add: tidy_def flag_def)

lemma F9_text: "autopart s \<Longrightarrow> F9_str s = text_of (F9_items s)"
  by (simp add: F9_str_def KickstartCommand_str_def Let_def text_body body_of_def item_defs)

lemma F12_text: "autopart s \<Longrightarrow> F12_str s = text_of (F9_items s @ F12_items s)"
  by (simp add: F12_str_def Let_def F9_text strip_text)
     (simp add: text_body body_of_def F12_items_def flag_def quoted_def)

lemma RHEL6_text: "autopart s \<Longrightarrow> RHEL6_str s = text_of (F9_items s @ F12_items s @ [cipher_item s])"
  by (simp add: RHEL6_str_def Let_def F12_text strip_text)
     (simp add: text_body body_of_def cipher_item_def quoted_def)

lemma F16_text: "autopart s \<Longrightarrow> F16_str s = text_of (F9_items s @ F12_items s @ [F16_item s])"
  by (simp add: F16_str_def Let_def F12_text strip_text)
     (simp add: text_body body_of_def F16_item_def flag_def)

lemma F17_text: "autopart s \<Longrightarrow> F17_str V s = text_of (F17_items V s)"
  by (simp add: F17_str_def Let_def F16_text strip_text F17_items_def split: option.splits)
     (simp add: text_body body_of_def F17_item_def plainval_def)

lemma F18_text: "autopart s \<Longrightarrow> F18_str V s = text_of (F17_items V s @ [cipher_item s])"
  by (simp add: F18_str_def Let_def F17_text strip_text F17_items_def)
     (simp add: text_body body_of_def cipher_item_def quoted_def)

lemma F21_text: "autopart s \<Longrightarrow> F21_str V s = text_of (F21_items V s)"
  by (simp add: F21_str_def Let_def F18_text strip_text F17_items_def F21_items_def)
     (simp add: text_body body_of_def F21_item_def plainval_def)

lemma tidy_F21_items: "bare (fstype s) \<Longrightarrow> tidy (F21_items V s)"
  by (simp add: F21_items_def F17_items_def tidy_F21)

lemma flag_text:
  "tidy its \<Longrightarrow> (if g then strip (text_of its) @ (CHR '' '' # name) @ [nl] else text_of its)
                = text_of (its @ [flag g name d v])"
  by (simp add: strip_text) (simp add: text_body body_of_def flag_def)

lemma str_text:
  assumes "autopart s" "bare (fstype s)"
  shows "str V s = text_of (items V s)"
proof (cases V)
  case FC3
  then show ?thesis using assms(1)
    by (simp add: FC3_str_def KickstartCommand_str_def text_body body_of_def)
next
  case RHEL7
  then show ?thesis
    using assms(1) flag_text [OF tidy_F21_items [OF assms(2)], of "nohome s" RHEL7 "''--nohome''" D_nohome "VBool True"]
    by (cases "nohome s") (simp_all add: RHEL7_str_def Let_def F21_text)
next
  case F26
  let ?i1 = "flag (nohome s) ''--nohome'' D_nohome (VBool True)"
  let ?i2 = "flag (noboot s) ''--noboot'' D_noboot (VBool True)"
  let ?i3 = "flag (noswap s) ''--noswap'' D_noswap (VBool True)"
  have t0: "tidy (F21_items F26 s)" by (rule tidy_F21_items [OF assms(2)])
  have t1: "tidy (F21_items F26 s @ [?i1])" using t0 by (simp add: tidy_flag isspace_def)
  have t2: "tidy ((F21_items F26 s @ [?i1]) @ [?i2])" using t1 by (simp add: tidy_flag isspace_def)
  note f1 = flag_text [OF t0, where g = "nohome s" and name = "''--nohome''" and d = D_nohome and v = "VBool True"]
  note f2 = flag_text [OF t1, where g = "noboot s" and name = "''--noboot''" and d = D_noboot and v = "VBool True"]
  note f3 = flag_text [OF t2, where g = "noswap s" and name = "''--noswap''" and d = D_noswap and v = "VBool True"]
  have "F26_str F26 s = text_of (((F21_items F26 s @ [?i1]) @ [?i2]) @ [?i3])"
    using assms(1)
    unfolding F26_str_def Let_def F21_text [OF assms(1)]
    by (simp only: if_False simp_thms f1 f2 f3)
  with F26 show ?thesis by simp
qed (use assms(1) in \<open>simp_all add: F9_text F12_text RHEL6_text F16_text F17_text F18_text F21_text\<close>)

subsection \<open>The type attribute and its name\<close>

lemma typeAsStr_None: "type s = None \<Longrightarrow> typeAsStr V s = None"
  by (simp add: typeAsStr_def typeMap_def)

lemma typeAsStr_Some:
  assumes "type s = Some t" "t \<in> snd ` set (typeMap V)"
  shows "\<exists>ty. typeAsStr V s = Some ty \<and> ty \<noteq> [] \<and> bare ty \<and> map_of (typeMap V) (lower ty) = Some t"
  using assms
  by (cases t; cases "derives V F20")
     (simp_all add: typeAsStr_def typeMap_def bare_def isspace_def lower_def lower_char_def)

subsection \<open>Reading what str wrote\<close>

lemma lexable_Nil [simp]: "lexable []"
  by (simp add: lexable_def)

lemma lexable_append [simp]: "lexable (xs @ ys) = (lexable xs \<and> lexable ys)"
  by (auto simp: lexable_def)

lemma lexable_Cons2 [simp]: "lexable (i # j # its) = (lexable [i] \<and> lexable (j # its))"
  by (auto simp: lexable_def)

lemma lexable_flag: "bare name \<Longrightarrow> name \<noteq> [] \<Longrightarrow> lexable [flag g name d v]"
  by (simp add: lexable_def flag_def bare_start)

lemma bare_append: "bare (xs @ ys) = (bare xs \<and> bare ys)"
  by (simp add: bare_def)

lemma lexable_plainval: "bare name \<Longrightarrow> bare x \<Longrightarrow> lexable [plainval g name x d v]"
proof -
  assume "bare name" "bare x"
  then have "bare (name @ CHR ''='' # x)" by (simp add: bare_def isspace_def)
  from bare_start [OF this] show ?thesis by (simp add: lexable_def plainval_def)
qed

lemma lexable_quoted: "bare name \<Longrightarrow> quotable x \<Longrightarrow> lexable [quoted g name x d]"
proof -
  assume n: "bare name" and q: "quotable x"
  from n have b: "bare (name @ ''='')" by (simp add: bare_def isspace_def)
  have "split_aux Unquoted None (name @ CHR ''='' # dq # x @ dq # rest)
        = split_aux Unquoted (Some (name @ CHR ''='' # x)) rest" for rest
    using bare_start [OF b, of "dq # x @ dq # rest"] quoted_run [OF q, of "name @ ''=''" rest]
    by simp
  then show ?thesis by (simp add: lexable_def quoted_def)
qed

lemma lexable_F17_item:
  assumes "\<forall>t. type s = Some t \<longrightarrow> t \<in> snd ` set (typeMap V)"
  shows "lexable [F17_item V s]"
proof (cases "type s")
  case None
  then show ?thesis by (simp add: F17_item_def typeAsStr_None lexable_def plainval_def)
next
  case (Some t)
  with assms typeAsStr_Some [OF Some, of V] obtain ty where "typeAsStr V s = Some ty" "bare ty"
    by auto
  then show ?thesis
    using lexable_plainval [of "''--type''" ty] by (simp add: F17_item_def bare_def isspace_def)
qed

lemma lexable_items:
  assumes "quotable (passphrase s)" "quotable (escrowcert s)" "quotable (cipher s)" "bare (fstype s)"
    and "\<forall>t. type s = Some t \<longrightarrow> t \<in> snd ` set (typeMap V)"
  shows "lexable (items V s)"
proof -
  have b: "\<And>n. n \<in> set all_option_strings \<Longrightarrow> bare n \<and> n \<noteq> []"
    by (auto simp: all_option_strings_def bare_def isspace_def)
  have 1: "lexable (F9_items s)" "lexable (F12_items s)" "lexable [cipher_item s]"
    "lexable [F16_item s]" "lexable [F21_item s]"
    using assms(1-4) b
    by (simp_all add: F9_items_def F12_items_def cipher_item_def F16_item_def F21_item_def
          lexable_flag lexable_quoted lexable_plainval all_option_strings_def)
  have 2: "lexable [flag (nohome s) ''--nohome'' D_nohome (VBool True)]"
    "lexable [flag (noboot s) ''--noboot'' D_noboot (VBool True)]"
    "lexable [flag (noswap s) ''--noswap'' D_noswap (VBool True)]"
    using b by (simp_all add: lexable_flag all_option_strings_def)
  note 3 = lexable_F17_item [OF assms(5)]
  show ?thesis
    using 1 2 3 by (cases V) (simp_all add: F17_items_def F21_items_def)
qed

subsection \<open>Parsing what was read\<close>

lemma completes_Nil [simp]: "completes V []"
  by (simp add: completes_def)

lemma completes_append [simp]: "completes V (xs @ ys) = (completes V xs \<and> completes V ys)"
  by (auto simp: completes_def)

lemma completes_Cons2 [simp]: "completes V (i # j # its) = (completes V [i] \<and> completes V (j # its))"
  by (auto simp: completes_def)

lemma completes_flag:
  assumes "map_of (getParser V) name = Some (a, d)" "hd name = CHR ''-''" "name \<noteq> ''--''" "name \<noteq> []"
    and "(a = StoreTrue \<and> v = VBool True) \<or> (a = StoreFalse \<and> v = VBool False)"
  shows "completes V [flag g name d v]"
  using assms complete_flag(1,2) [OF assms(1,4,2,3)] by (auto simp: completes_def flag_def)

lemma completes_quoted:
  assumes "map_of (getParser V) name = Some (Store, d)" "hd name = CHR ''-''" "name \<noteq> []"
    "CHR ''='' \<notin> set name"
  shows "completes V [quoted g name x d]"
  using complete_value(1) [OF assms(1,3,2,4) no_eq_in_options, where tm = "typeMap V" and v = x]
  by (simp add: completes_def quoted_def)

lemma completes_plainval:
  assumes "map_of (getParser V) name = Some (Store, d)" "hd name = CHR ''-''" "name \<noteq> []"
    "CHR ''='' \<notin> set name"
  shows "completes V [plainval g name x d (VStr x)]"
  using complete_value(1) [OF assms(1,3,2,4) no_eq_in_options, where tm = "typeMap V" and v = x]
  by (simp add: completes_def plainval_def)

lemma completes_F17_item:
  assumes "derives V F17" "\<forall>t. type s = Some t \<longrightarrow> t \<in> snd ` set (typeMap V)"
  shows "completes V [F17_item V s]"
proof (cases "type s")
  case None
  then show ?thesis by (simp add: F17_item_def typeAsStr_None completes_def plainval_def)
next
  case (Some t)
  with assms(2) typeAsStr_Some [OF Some, of V] obtain ty where
    ty: "typeAsStr V s = Some ty" "map_of (typeMap V) (lower ty) = Some t"
    by auto
  from F17_options [OF assms(1)] have m: "map_of (getParser V) ''--type'' = Some (StoreTypeCb, D_type)"
    by simp
  from complete_value(2) [OF m _ _ _ no_eq_in_options _ ty(2)]
  have "complete (getParser V) (typeMap V) (''--type'' @ CHR ''='' # ty) = Some (D_type, VType t)"
    by simp
  with ty Some show ?thesis by (simp add: F17_item_def completes_def plainval_def)
qed

lemma completes_items:
  assumes "V \<noteq> FC3" "derives V F17 \<longrightarrow> lvm s"
    and "\<forall>t. type s = Some t \<longrightarrow> t \<in> snd ` set (typeMap V)"
  shows "completes V (items V s)"
proof -
  have F16: "derives V F17 \<Longrightarrow> completes V [F16_item s]"
    using assms(2) by (simp add: completes_def F16_item_def flag_def)
  show ?thesis
    using assms(1) F16 completes_F17_item [OF _ assms(3)]
    by (cases V)
       (simp_all add: derives_def F17_items_def F21_items_def F9_items_def F12_items_def
          cipher_item_def F16_item_def F21_item_def
          completes_flag completes_quoted completes_plainval parser_defs)
qed

subsection \<open>The object after the second parse\<close>

lemma put_apply: "put i ns d = (if guard i \<and> d = target i then Some (stored i) else ns d)"
  by (simp add: put_def)

lemma put_F17_item:
  assumes "\<forall>t. type s = Some t \<longrightarrow> t \<in> snd ` set (typeMap V)"
  shows "put (F17_item V s) ns d = (if d = D_type \<and> type s \<noteq> None then map_option VType (type s) else ns d)"
proof (cases "type s")
  case None
  then show ?thesis by (simp add: put_apply F17_item_def typeAsStr_None plainval_def)
next
  case (Some t)
  with assms typeAsStr_Some [OF Some, of V] obtain ty where "typeAsStr V s = Some ty" "ty \<noteq> []"
    by auto
  with Some show ?thesis by (auto simp: put_apply F17_item_def plainval_def)
qed

lemma put_F17_other: "d \<noteq> D_type \<Longrightarrow> put (F17_item V s) ns d = ns d"
  by (simp add: put_apply F17_item_def plainval_def split: option.splits)

lemma parse_same:
  "V \<noteq> FC3 \<Longrightarrow> parse_args (getParser V) (typeMap V) a0 = Inr n0 \<Longrightarrow>
   parse_args (getParser V) (typeMap V) a1 = Inr n1 \<Longrightarrow> set_to_self n0 s0 = set_to_self n1 s1 \<Longrightarrow>
   parse V h s0 a0 = parse V h s1 a1"
  by (cases V) (simp_all add: parse_defs)

lemma consts_in_typeMap:
  "\<forall>c d. (StoreConst c, d) \<in> snd ` set (getParser V) \<longrightarrow> c \<in> snd ` set (typeMap V)"
  by (cases V) (auto simp: parser_defs typeMap_def)

lemma put_items:
  "put (flag g name d v) ns d' = (if g \<and> d' = d then Some v else ns d')"
  "put (quoted g name x d) ns d' = (if g \<and> d' = d then Some (VStr x) else ns d')"
  "put (plainval g name x d v) ns d' = (if g \<and> d' = d then Some v else ns d')"
  by (simp_all add: put_apply flag_def quoted_def plainval_def)

lemma second_namespace:
  assumes a0: "parse_args (getParser V) (typeMap V) args = Inr ns0"
    and inv: "ns_inv (getParser V) (typeMap V) ns0"
    and s: "s = (if derives V F17 then (set_to_self ns0 init)\<lparr>autopart := True, lvm := True\<rparr>
                 else (set_to_self ns0 init)\<lparr>autopart := True\<rparr>)"
    and rt: "round_trippable s" and nf: "V \<noteq> FC3"
  shows "set_to_self ns0 init = set_to_self (fold put (items V s) (defaults (getParser V))) init"
proof -
  have none: "\<And>d. d \<notin> (snd \<circ> snd) ` set (getParser V) \<Longrightarrow> ns0 d = None"
    using inv by (simp add: ns_inv_def)
  have fs: "encrypted s = as_bool (ns0 D_encrypted) False"
    "passphrase s = as_str (ns0 D_passphrase) []"
    "escrowcert s = as_str (ns0 D_escrowcert) []"
    "backuppassphrase s = as_bool (ns0 D_backuppassphrase) False"
    "cipher s = as_str (ns0 D_cipher) []"
    "type s = as_type (ns0 D_type) None"
    "fstype s = as_str (ns0 D_fstype) []"
    "nohome s = as_bool (ns0 D_nohome) False"
    "noboot s = as_bool (ns0 D_noboot) False"
    "noswap s = as_bool (ns0 D_noswap) False"
    by (simp_all add: s set_to_self_fields init_def)
  have lv: "lvm s = (if derives V F17 then True else as_bool (ns0 D_lvm) True)"
    by (simp add: s set_to_self_fields init_def)
  have ty: "\<forall>t. type s = Some t \<longrightarrow> t \<in> snd ` set (typeMap V)"
  proof (intro allI impI)
    fix t assume "type s = Some t"
    with fs(6) have "ns0 D_type = Some (VType t)"
      by (cases "ns0 D_type"; cases "the (ns0 D_type)") auto
    with inv show "t \<in> snd ` set (typeMap V)" unfolding ns_inv_def by blast
  qed
  from rt have r: "encrypted s \<or> (passphrase s = [] \<and> escrowcert s = [] \<and> cipher s = [])"
    "(encrypted s \<and> escrowcert s \<noteq> []) \<or> \<not> backuppassphrase s"
    by (simp_all add: round_trippable_def)
  let ?ns1 = "fold put (items V s) (defaults (getParser V))"
  note ev = set_to_self_fields init_def F17_items_def F21_items_def F9_items_def F12_items_def
    cipher_item_def F16_item_def F21_item_def put_items put_F17_other defaults_def parser_defs derives_def
  have e1: "as_bool (ns0 D_encrypted) False = as_bool (?ns1 D_encrypted) False"
    using nf fs(1) by (cases V) (simp_all add: ev)
  have e2: "as_str (ns0 D_passphrase) [] = as_str (?ns1 D_passphrase) []"
    using nf fs(1,2) r by (cases V) (auto simp: ev)
  have e3: "as_str (ns0 D_escrowcert) [] = as_str (?ns1 D_escrowcert) []"
    using nf fs(1,3) r none [of D_escrowcert] by (cases V) (auto simp: ev)
  have e4: "as_bool (ns0 D_backuppassphrase) False = as_bool (?ns1 D_backuppassphrase) False"
    using nf fs(1,3,4) r none [of D_backuppassphrase] by (cases V) (auto simp: ev)
  have e5: "as_str (ns0 D_cipher) [] = as_str (?ns1 D_cipher) []"
    using nf fs(1,5) r none [of D_cipher] by (cases V) (auto simp: ev)
  have e6: "as_bool (ns0 D_lvm) True = as_bool (?ns1 D_lvm) True"
    using nf lv none [of D_lvm] by (cases V) (auto simp: ev)
  have e7: "as_type (ns0 D_type) None = as_type (?ns1 D_type) None"
    using nf fs(6) ty none [of D_type] by (cases V; cases "type s") (auto simp: ev put_F17_item)
  have e8: "as_str (ns0 D_fstype) [] = as_str (?ns1 D_fstype) []"
    using nf fs(7) none [of D_fstype] by (cases V) (auto simp: ev)
  have e9: "as_bool (ns0 D_nohome) False = as_bool (?ns1 D_nohome) False"
    using nf fs(8) none [of D_nohome] by (cases V) (auto simp: ev)
  have e10: "as_bool (ns0 D_noboot) False = as_bool (?ns1 D_noboot) False"
    using nf fs(9) none [of D_noboot] by (cases V) (auto simp: ev)
  have e11: "as_bool (ns0 D_noswap) False = as_bool (?ns1 D_noswap) False"
    using nf fs(10) none [of D_noswap] by (cases V) (auto simp: ev)
  show ?thesis
    by (rule autopart_state.equality)
       (simp_all add: set_to_self_fields init_def e1 e2 e3 e4 e5 e6 e7 e8 e9 e10 e11)
qed

lemma reparse_tokens:
  assumes p: "parse V h init args = (None, s)" and rt: "round_trippable s" and nf: "V \<noteq> FC3"
  shows "parse V h init (tokens_of (items V s)) = (None, s)"
    and "\<forall>t. type s = Some t \<longrightarrow> t \<in> snd ` set (typeMap V)" and "autopart s"
proof -
  obtain ns0 where a0: "parse_args (getParser V) (typeMap V) args = Inr ns0"
    using p parse_failure [OF nf, of args _ h init]
    by (cases "parse_args (getParser V) (typeMap V) args") auto
  note inv = parse_args_inv [OF consts_in_typeMap a0]
  from parse_state [OF nf a0, of h init] p
  have s: "s = (if derives V F17 then (set_to_self ns0 init)\<lparr>autopart := True, lvm := True\<rparr>
                else (set_to_self ns0 init)\<lparr>autopart := True\<rparr>)" by simp
  then show "autopart s" by simp
  show ty: "\<forall>t. type s = Some t \<longrightarrow> t \<in> snd ` set (typeMap V)"
  proof (intro allI impI)
    fix t assume "type s = Some t"
    with s have "as_type (ns0 D_type) None = Some t" by (simp add: set_to_self_fields init_def split: if_splits)
    then have "ns0 D_type = Some (VType t)"
      by (cases "ns0 D_type"; cases "the (ns0 D_type)") auto
    with inv show "t \<in> snd ` set (typeMap V)" unfolding ns_inv_def by blast
  qed
  have lv: "derives V F17 \<longrightarrow> lvm s" using s by simp
  from parse_tokens [OF completes_items [OF nf lv ty, unfolded completes_def]]
  have a1: "parse_args (getParser V) (typeMap V) (tokens_of (items V s))
            = Inr (fold put (items V s) (defaults (getParser V)))" .
  from parse_same [OF nf a0 a1 second_namespace [OF a0 inv s rt nf], of h] p
  show "parse V h init (tokens_of (items V s)) = (None, s)" by simp
qed

text \<open>
  Claim C1, as amended. For every target version and every state \<open>s\<close> that a successful
  parse of a new command object leaves, provided \<open>s\<close> is \<open>round_trippable\<close> (\<^verbatim>\<open>passphrase\<close>,
  \<^verbatim>\<open>escrowcert\<close> and \<^verbatim>\<open>cipher\<close> empty unless \<^verbatim>\<open>encrypted\<close> is set, \<^verbatim>\<open>backuppassphrase\<close> unset
  unless \<^verbatim>\<open>encrypted\<close> and \<^verbatim>\<open>escrowcert\<close> are set, no double quote or backslash in the three
  strings, no whitespace, quote or backslash in \<^verbatim>\<open>fstype\<close>): reading the serialised form and
  parsing it into a new object, in the same document, succeeds and gives \<open>s\<close> again.
\<close>

theorem round_trip:
  assumes "parse V h init args = (None, s)" and "round_trippable s"
  shows "reparse V h (str V s) = Some (None, s)"
proof -
  from assms(2) have q: "quotable (passphrase s)" "quotable (escrowcert s)" "quotable (cipher s)"
    "bare (fstype s)"
    by (simp_all add: round_trippable_def)
  have k: "parse V h init (tokens_of (items V s)) = (None, s)
           \<and> (\<forall>t. type s = Some t \<longrightarrow> t \<in> snd ` set (typeMap V)) \<and> autopart s"
  proof (cases "V = FC3")
    case True
    with assms(1) have "s = init\<lparr>autopart := True\<rparr>"
      by (auto simp: FC3_parse_def split: if_splits)
    with True show ?thesis by (simp add: tokens_of_def FC3_parse_def init_def)
  next
    case False
    from reparse_tokens [OF assms False] show ?thesis by simp
  qed
  from k have "str V s = text_of (items V s)" using str_text q(4) by simp
  moreover have "read_line (text_of (items V s)) = ''autopart'' # tokens_of (items V s)"
    using read_text lexable_items [OF q, of V] k by (simp add: lexable_def)
  ultimately show ?thesis using k by (simp add: reparse_def)
qed

theorem round_trip_witness:
  "parse F26 quiet init [''--encrypted'', ''--passphrase'', ''a b'', ''--type=LVM'', ''--fstype=ext4'', ''--noswap'']
     = (None, init\<lparr>autopart := True, encrypted := True, passphrase := ''a b'',
                   type := Some AUTOPART_TYPE_LVM, fstype := ''ext4'', noswap := True\<rparr>)
   \<and> round_trippable (init\<lparr>autopart := True, encrypted := True, passphrase := ''a b'',
                   type := Some AUTOPART_TYPE_LVM, fstype := ''ext4'', noswap := True\<rparr>)
   \<and> reparse F26 quiet (str F26 (init\<lparr>autopart := True, encrypted := True, passphrase := ''a b'',
                   type := Some AUTOPART_TYPE_LVM, fstype := ''ext4'', noswap := True\<rparr>))
     = Some (None, init\<lparr>autopart := True, encrypted := True, passphrase := ''a b'',
                   type := Some AUTOPART_TYPE_LVM, fstype := ''ext4'', noswap := True\<rparr>)"
proof -
  let ?s = "init\<lparr>autopart := True, encrypted := True, passphrase := ''a b'',
                   type := Some AUTOPART_TYPE_LVM, fstype := ''ext4'', noswap := True\<rparr>"
  have p: "parse F26 quiet init [''--encrypted'', ''--passphrase'', ''a b'', ''--type=LVM'', ''--fstype=ext4'', ''--noswap'']
     = (None, ?s)" by code_simp
  have r: "round_trippable ?s" by code_simp
  from p r round_trip [OF p r] show ?thesis by simp
qed

text \<open>
  Claim C1 as stated fails: under F9 \<^verbatim>\<open>autopart --passphrase=abc\<close> parses, the state is
  written as \<^verbatim>\<open>autopart\<close> alone because \<^verbatim>\<open>encrypted\<close> is not set, and parsing that line gives
  a state without the passphrase.
\<close>

theorem round_trip_counterexample:
  "parse F9 quiet init [''--passphrase=abc''] = (None, init\<lparr>autopart := True, passphrase := ''abc''\<rparr>)
   \<and> str F9 (init\<lparr>autopart := True, passphrase := ''abc''\<rparr>) = ''autopart'' @ [nl]
   \<and> reparse F9 quiet (str F9 (init\<lparr>autopart := True, passphrase := ''abc''\<rparr>))
       = Some (None, init\<lparr>autopart := True\<rparr>)
   \<and> init\<lparr>autopart := True\<rparr> \<noteq> init\<lparr>autopart := True, passphrase := ''abc''\<rparr>"
  by code_simp

end
